theory Spec2Isabelle
  imports Complex_Main "HOL-Library.Word" "HOL-Library.Sublist"
begin


section \<open>Errors and decimal rendering\<close>

text \<open>
  The C++ sources signal failure by throwing \<^verbatim>\<open>Exception(message, code)\<close>. A function
  that can throw returns a sum: \<open>Inl\<close> carries the exception, \<open>Inr\<close> the normal result.
  Executions on which the C++ standard gives the program no meaning (erasing \<^verbatim>\<open>end()\<close>,
  using an iterator that designates no node) are the value \<open>UndefinedBehaviour\<close>; a null
  column handle that is dereferenced is \<open>NullPointerDereference\<close>.
\<close>

datatype error_code =
    POSITION_OUT_OF_BOUND
  | NOT_FOUND_COLUMN_IN_BLOCK
  | SIZES_OF_COLUMNS_DOESNT_MATCH
  | SIZES_OF_ARRAYS_DOESNT_MATCH
  | TOO_SLOW

datatype error =
    Exception string error_code
  | UndefinedBehaviour
  | NullPointerDereference

text \<open>
  Modelled from the spec: \<^verbatim>\<open>toString\<close> for unsigned integers (IO/WriteHelpers.h is not
  among the sources); the messages "report the requested position and the valid maximum" in
  decimal.
\<close>

function toString :: "nat \<Rightarrow> string" where
  "toString n =
     (if n < 10 then [''0123456789'' ! n]
      else toString (n div 10) @ [''0123456789'' ! (n mod 10)])"
  by pat_completeness auto

termination
  by (relation "measure id") auto

declare toString.simps [simp del]

definition toString_int :: "int \<Rightarrow> string" where
  "toString_int i = (if i < 0 then ''-'' @ toString (nat (- i)) else toString (nat i))"

section \<open>ExecutionSpeedLimits\<close>

type_synonym UInt64 = "64 word"

type_synonym Int64 = "64 word"

text \<open>
  Modelled from the spec: the class declaration (DataStreams/ExecutionSpeedLimits.h) is not
  among the sources. The four speeds are \<^verbatim>\<open>size_t\<close> fields, zero meaning disabled; the two
  durations are time spans holding a signed 64-bit count of microseconds.
\<close>

record ExecutionSpeedLimits =
  min_execution_speed :: UInt64
  max_execution_speed :: UInt64
  min_execution_speed_bytes :: UInt64
  max_execution_speed_bytes :: UInt64
  max_execution_time :: Int64
  timeout_before_checking_execution_speed :: Int64

definition totalMicroseconds :: "Int64 \<Rightarrow> int" where
  "totalMicroseconds timespan = sint timespan"

text \<open>Whole seconds of a time span: signed division truncating towards zero, narrowed to \<^verbatim>\<open>int\<close>.\<close>

definition totalSeconds :: "Int64 \<Rightarrow> int" where
  "totalSeconds timespan =
     sint (word_of_int (sgn (sint timespan) * (\<bar>sint timespan\<bar> div 1000000)) :: 32 word)"

text \<open>
  The part of the calling thread's execution context that \<^verbatim>\<open>throttle\<close> reads and writes:
  the profile counter \<^verbatim>\<open>ThrottlerSleepMicroseconds\<close>, and the sleeps performed so far (the
  arguments of \<^verbatim>\<open>sleepForMicroseconds\<close>, oldest first).
\<close>

record CurrentThread =
  ThrottlerSleepMicroseconds :: UInt64
  sleeps :: "UInt64 list"

definition sleepForMicroseconds :: "UInt64 \<Rightarrow> CurrentThread \<Rightarrow> CurrentThread" where
  "sleepForMicroseconds us ctx = ctx\<lparr>sleeps := sleeps ctx @ [us]\<rparr>"

definition increment :: "UInt64 \<Rightarrow> CurrentThread \<Rightarrow> CurrentThread" where
  "increment amount ctx =
     ctx\<lparr>ThrottlerSleepMicroseconds := ThrottlerSleepMicroseconds ctx + amount\<rparr>"

text \<open>
  \<^verbatim>\<open>limitProgressingSpeed\<close>, in 64-bit unsigned arithmetic (the product wraps). Both call
  sites pass a non-zero \<open>max_speed_in_seconds\<close>.
\<close>

definition limitProgressingSpeed ::
    "UInt64 \<Rightarrow> UInt64 \<Rightarrow> UInt64 \<Rightarrow> CurrentThread \<Rightarrow> CurrentThread" where
  "limitProgressingSpeed total_progress_size max_speed_in_seconds total_elapsed_microseconds ctx =
     (let desired_microseconds = total_progress_size * 1000000 div max_speed_in_seconds
      in if desired_microseconds > total_elapsed_microseconds
         then let sleep_microseconds = desired_microseconds - total_elapsed_microseconds;
                  sleep_microseconds = min 1000000 sleep_microseconds
              in increment sleep_microseconds (sleepForMicroseconds sleep_microseconds ctx)
         else ctx)"

text \<open>
  Lines 46 to 51 of \<^verbatim>\<open>throttle\<close>: the elapsed seconds the checks use. The subtraction is
  the unsigned 64-bit one. Values of type \<^verbatim>\<open>double\<close> are represented by reals and
  rounding is not modelled: the conversion of the difference and the division by 1000000.0
  are exact here, while the code holds the nearest doubles. Whether the value is 0 is
  decided by the integer comparison and is exact.
\<close>

definition elapsed_seconds :: "UInt64 \<Rightarrow> UInt64 \<Rightarrow> real" where
  "elapsed_seconds total_elapsed_microseconds throttler_sleep_microseconds =
     (if throttler_sleep_microseconds > total_elapsed_microseconds
      then real (unat (total_elapsed_microseconds - throttler_sleep_microseconds)) / 1000000
      else 0)"

text \<open>
  \<^verbatim>\<open>ExecutionSpeedLimits::throttle\<close>. The parameter \<open>render\<close> is \<^verbatim>\<open>toString\<close> on a
  \<^verbatim>\<open>double\<close>, used in the exception messages only. The rates and the estimated time
  are compared as reals; where a rate or an estimate lies within rounding distance of its
  threshold the code, which compares doubles, can take the other branch. The statements
  below are about inputs on which the elapsed seconds are 0, or on which the two sides of
  the comparison are many orders of magnitude apart.
\<close>

definition throttle ::
    "(real \<Rightarrow> string) \<Rightarrow> ExecutionSpeedLimits \<Rightarrow> UInt64 \<Rightarrow> UInt64 \<Rightarrow> UInt64 \<Rightarrow> UInt64 \<Rightarrow>
     CurrentThread \<Rightarrow> error + CurrentThread" where
  "throttle render limits read_rows read_bytes total_rows total_elapsed_microseconds ctx =
     (if (min_execution_speed limits \<noteq> 0 \<or> max_execution_speed limits \<noteq> 0 \<or>
          min_execution_speed_bytes limits \<noteq> 0 \<or> max_execution_speed_bytes limits \<noteq> 0 \<or>
          (total_rows \<noteq> 0 \<and> timeout_before_checking_execution_speed limits \<noteq> 0)) \<and>
         sint total_elapsed_microseconds >
           totalMicroseconds (timeout_before_checking_execution_speed limits)
      then
        let throttler_sleep_microseconds = ThrottlerSleepMicroseconds ctx;
            secs = elapsed_seconds total_elapsed_microseconds throttler_sleep_microseconds
        in
        if secs > 0 then
          if min_execution_speed limits \<noteq> 0 \<and>
             real (unat read_rows) / secs < real (unat (min_execution_speed limits))
          then Inl (Exception (''Query is executing too slow: '' @ render (real (unat read_rows) / secs)
                      @ '' rows/sec., minimum: '' @ toString (unat (min_execution_speed limits)))
                    TOO_SLOW)
          else if min_execution_speed_bytes limits \<noteq> 0 \<and>
             real (unat read_bytes) / secs < real (unat (min_execution_speed_bytes limits))
          then Inl (Exception (''Query is executing too slow: '' @ render (real (unat read_bytes) / secs)
                      @ '' bytes/sec., minimum: '' @ toString (unat (min_execution_speed_bytes limits)))
                    TOO_SLOW)
          else if max_execution_time limits \<noteq> 0 \<and> total_rows \<noteq> 0 \<and> read_rows \<noteq> 0 \<and>
             secs * (real (unat total_rows) / real (unat read_rows)) >
               real_of_int (totalSeconds (max_execution_time limits))
          then Inl (Exception (''Estimated query execution time (''
                      @ render (secs * (real (unat total_rows) / real (unat read_rows))) @ '' seconds)''
                      @ '' is too long. Maximum: ''
                      @ toString_int (totalSeconds (max_execution_time limits))
                      @ ''. Estimated rows to process: '' @ toString (unat total_rows))
                    TOO_SLOW)
          else
            let ctx1 =
                  (if max_execution_speed limits \<noteq> 0 \<and>
                      real (unat read_rows) / secs \<ge> real (unat (max_execution_speed limits))
                   then limitProgressingSpeed read_rows (max_execution_speed limits)
                          total_elapsed_microseconds ctx
                   else ctx);
                ctx2 =
                  (if max_execution_speed_bytes limits \<noteq> 0 \<and>
                      real (unat read_bytes) / secs \<ge> real (unat (max_execution_speed_bytes limits))
                   then limitProgressingSpeed read_bytes (max_execution_speed_bytes limits)
                          total_elapsed_microseconds ctx1
                   else ctx1)
            in Inr ctx2
        else Inr ctx
      else Inr ctx)"

section \<open>Columns, types and the block\<close>

type_synonym addr = nat

text \<open>
  Modelled from the spec: the type descriptor contract (\<^verbatim>\<open>IDataType\<close> is not among the
  sources): a name and the two traits "behaves as number" and "behaves as string".
\<close>

record IDataType =
  getName :: string
  behavesAsNumber :: bool
  behavesAsString :: bool

text \<open>
  A column handle (\<^verbatim>\<open>ColumnPtr\<close>) is a shared pointer: null, or pointing to a
  \<^verbatim>\<open>ColumnArray\<close> object at an address, or to a column of another kind, which the block
  only asks for its size. Two handles \<open>ColumnArray a\<close> with the same address are the same
  object.
\<close>

datatype ColumnPtr = Null | ColumnArray addr | ColumnOther nat

text \<open>
  Modelled from the spec: the fields of the \<^verbatim>\<open>ColumnArray\<close> objects (Columns/ColumnArray.h is
  not among the sources). Each array object holds a handle to its offsets column
  (\<^verbatim>\<open>getOffsetsColumn()\<close>, assignable); the offsets column holds the per-row offsets
  (\<^verbatim>\<open>getOffsets()\<close>). An array column has one row per offset.
\<close>

record memory =
  getOffsetsColumn :: "addr \<Rightarrow> addr"
  getOffsets :: "addr \<Rightarrow> nat list"

fun column_size :: "memory \<Rightarrow> ColumnPtr \<Rightarrow> error + nat" where
  "column_size m Null = Inl NullPointerDereference"
| "column_size m (ColumnArray a) = Inr (length (getOffsets m (getOffsetsColumn m a)))"
| "column_size m (ColumnOther n) = Inr n"


record ColumnWithNameAndType =
  column :: ColumnPtr
  type :: IDataType
  name :: string

text \<open>
  Modelled from the spec: the member declarations (Core/Block.h is not among the sources).
  \<^verbatim>\<open>data\<close> is a \<^verbatim>\<open>std::list\<close>; its nodes keep their identity while other nodes come and go,
  so a node is a pair of an identity and the element it holds. A list iterator designates a
  node by its identity; \<open>Singular\<close> is the value-initialised iterator that \<^verbatim>\<open>resize\<close> puts
  into new slots. \<^verbatim>\<open>index_by_position\<close> is a vector of iterators, \<^verbatim>\<open>index_by_name\<close> a map from
  names to iterators. \<open>next_node\<close> is the identity the allocator gives to the next node.
\<close>

datatype iterator = Iterator nat | Singular

type_synonym Container_t = "(nat \<times> ColumnWithNameAndType) list"

record Block =
  data :: Container_t
  index_by_position :: "iterator list"
  index_by_name :: "string \<rightharpoonup> iterator"
  next_node :: nat

definition Block_empty :: Block where
  "Block_empty = \<lparr>data = [], index_by_position = [], index_by_name = Map.empty, next_node = 0\<rparr>"

text \<open>The list operations on iterators; \<open>None\<close> when the iterator designates no node of the list.\<close>

fun list_insert :: "Container_t \<Rightarrow> iterator \<Rightarrow> nat \<times> ColumnWithNameAndType \<Rightarrow> Container_t option" where
  "list_insert [] it node = None"
| "list_insert (x # xs) it node =
     (if it = Iterator (fst x) then Some (node # x # xs)
      else map_option ((#) x) (list_insert xs it node))"

fun list_erase :: "Container_t \<Rightarrow> iterator \<Rightarrow> Container_t option" where
  "list_erase [] it = None"
| "list_erase (x # xs) it =
     (if it = Iterator (fst x) then Some xs else map_option ((#) x) (list_erase xs it))"

fun distance :: "Container_t \<Rightarrow> iterator \<Rightarrow> nat option" where
  "distance [] it = None"
| "distance (x # xs) it =
     (if it = Iterator (fst x) then Some 0 else map_option Suc (distance xs it))"

fun dereference :: "Container_t \<Rightarrow> iterator \<Rightarrow> error + ColumnWithNameAndType" where
  "dereference [] it = Inl UndefinedBehaviour"
| "dereference (x # xs) it = (if it = Iterator (fst x) then Inr (snd x) else dereference xs it)"

text \<open>
  Modelled from the spec: \<^verbatim>\<open>Block::columns\<close> is declared in Core/Block.h; the "column
  count" is the number of slots of the position index.
\<close>

definition columns :: "Block \<Rightarrow> nat" where
  "columns b = length (index_by_position b)"

text \<open>\<^verbatim>\<open>Block::insert(const ColumnWithNameAndType &)\<close>: append.\<close>

definition Block_insert :: "Block \<Rightarrow> ColumnWithNameAndType \<Rightarrow> Block" where
  "Block_insert b elem =
     (let it = Iterator (next_node b)
      in \<lparr>data = data b @ [(next_node b, elem)],
          index_by_position = index_by_position b @ [it],
          index_by_name = (index_by_name b)(name elem \<mapsto> it),
          next_node = Suc (next_node b)\<rparr>)"

text \<open>The loop of \<^verbatim>\<open>insert(position, elem)\<close>: for i from the last slot down to position + 1.\<close>

function shift_right :: "iterator list \<Rightarrow> nat \<Rightarrow> nat \<Rightarrow> iterator list" where
  "shift_right ibp i position =
     (if i > position then shift_right (ibp[i := ibp ! (i - 1)]) (i - 1) position else ibp)"
  by pat_completeness auto

termination
  by (relation "measure (\<lambda>(ibp, i, position). i)") auto

declare shift_right.simps [simp del]

text \<open>The loop of both \<^verbatim>\<open>erase\<close> overloads: for i from position while i is below the last slot (\<open>sz\<close> is the source's \<^verbatim>\<open>size\<close>).\<close>

function shift_left :: "iterator list \<Rightarrow> nat \<Rightarrow> nat \<Rightarrow> iterator list" where
  "shift_left ibp i sz =
     (if i < sz then shift_left (ibp[i := ibp ! (i + 1)]) (i + 1) sz else ibp)"
  by pat_completeness auto

termination
  by (relation "measure (\<lambda>(ibp, i, sz). sz - i)") auto

declare shift_left.simps [simp del]

text \<open>\<^verbatim>\<open>Block::insert(size_t position, const ColumnWithNameAndType &)\<close>.\<close>

definition Block_insert_at :: "Block \<Rightarrow> nat \<Rightarrow> ColumnWithNameAndType \<Rightarrow> error + Block" where
  "Block_insert_at b position elem =
     (if position > length (index_by_position b)
      then Inl (Exception (''Position out of bound in Block::insert(), max position = ''
                  @ toString (length (index_by_position b))) POSITION_OUT_OF_BOUND)
      else if position = length (index_by_position b) then Inr (Block_insert b elem)
      else
        case list_insert (data b) (index_by_position b ! position) (next_node b, elem) of
          None \<Rightarrow> Inl UndefinedBehaviour
        | Some data' \<Rightarrow>
            let it = Iterator (next_node b);
                by_name = (index_by_name b)(name elem \<mapsto> it);
                resized = index_by_position b @ [Singular];
                shifted = shift_right resized (length resized - 1) position
            in Inr \<lparr>data = data',
                    index_by_position = shifted[position := it],
                    index_by_name = by_name,
                    next_node = Suc (next_node b)\<rparr>)"

text \<open>\<^verbatim>\<open>Block::insertUnique\<close>.\<close>

definition insertUnique :: "Block \<Rightarrow> ColumnWithNameAndType \<Rightarrow> Block" where
  "insertUnique b elem = (if index_by_name b (name elem) = None then Block_insert b elem else b)"

text \<open>\<^verbatim>\<open>Block::erase(size_t position)\<close>. Erasing the end iterator of the map is undefined.\<close>

definition Block_erase :: "Block \<Rightarrow> nat \<Rightarrow> error + Block" where
  "Block_erase b position =
     (if position \<ge> length (index_by_position b)
      then Inl (Exception (''Position out of bound in Block::erase(), max position = ''
                  @ toString (length (index_by_position b))) POSITION_OUT_OF_BOUND)
      else
        let it = index_by_position b ! position in
        case dereference (data b) it of
          Inl e \<Rightarrow> Inl e
        | Inr elem \<Rightarrow>
            (case index_by_name b (name elem) of
               None \<Rightarrow> Inl UndefinedBehaviour
             | Some found \<Rightarrow>
                 (case list_erase (data b) it of
                    None \<Rightarrow> Inl UndefinedBehaviour
                  | Some data' \<Rightarrow>
                      let sz = length (index_by_position b) - 1;
                          shifted = shift_left (index_by_position b) position sz
                      in Inr \<lparr>data = data',
                              index_by_position = take (length (index_by_position b) - 1) shifted,
                              index_by_name = (index_by_name b)(name elem := None),
                              next_node = next_node b\<rparr>)))"

text \<open>\<^verbatim>\<open>Block::erase(const String & name)\<close>.\<close>

definition Block_erase_name :: "Block \<Rightarrow> string \<Rightarrow> error + Block" where
  "Block_erase_name b n =
     (case index_by_name b n of
        None \<Rightarrow> Inl (Exception (''No such name in Block::erase(): '' @ [CHR 0x27] @ n @ [CHR 0x27])
                      NOT_FOUND_COLUMN_IN_BLOCK)
      | Some it \<Rightarrow>
          (case distance (data b) it of
             None \<Rightarrow> Inl UndefinedBehaviour
           | Some position \<Rightarrow>
               (case list_erase (data b) it of
                  None \<Rightarrow> Inl UndefinedBehaviour
                | Some data' \<Rightarrow>
                    let sz = length (index_by_position b) - 1;
                        shifted = shift_left (index_by_position b) position sz
                    in Inr \<lparr>data = data',
                            index_by_position = take (length (index_by_position b) - 1) shifted,
                            index_by_name = (index_by_name b)(n := None),
                            next_node = next_node b\<rparr>)))"

text \<open>\<^verbatim>\<open>Block::dumpNames\<close>: the names in order, separated by a comma and a space.\<close>

fun dumpNames_loop :: "bool \<Rightarrow> Container_t \<Rightarrow> string \<Rightarrow> string" where
  "dumpNames_loop at_begin [] res = res"
| "dumpNames_loop at_begin (x # xs) res =
     dumpNames_loop False xs ((if \<not> at_begin then res @ '', '' else res) @ name (snd x))"

definition dumpNames :: "Block \<Rightarrow> string" where
  "dumpNames b = dumpNames_loop True (data b) []"

text \<open>
  \<^verbatim>\<open>Block::getByPosition\<close>. The message prints \<^verbatim>\<open>index_by_position.size() - 1\<close>, an unsigned
  64-bit difference.
\<close>

definition getByPosition :: "Block \<Rightarrow> nat \<Rightarrow> error + ColumnWithNameAndType" where
  "getByPosition b position =
     (if position \<ge> length (index_by_position b)
      then Inl (Exception (''Position '' @ toString position
                  @ '' is out of bound in Block::getByPosition(), max position = ''
                  @ toString ((length (index_by_position b) + 2 ^ 64 - 1) mod 2 ^ 64)
                  @ '', there are columns: '' @ dumpNames b) POSITION_OUT_OF_BOUND)
      else dereference (data b) (index_by_position b ! position))"

definition getByName :: "Block \<Rightarrow> string \<Rightarrow> error + ColumnWithNameAndType" where
  "getByName b n =
     (case index_by_name b n of
        None \<Rightarrow> Inl (Exception (''Not found column '' @ n @ '' in block. There are only columns: ''
                      @ dumpNames b) NOT_FOUND_COLUMN_IN_BLOCK)
      | Some it \<Rightarrow> dereference (data b) it)"

definition has :: "Block \<Rightarrow> string \<Rightarrow> bool" where
  "has b n = (index_by_name b n \<noteq> None)"

definition getPositionByName :: "Block \<Rightarrow> string \<Rightarrow> error + nat" where
  "getPositionByName b n =
     (case index_by_name b n of
        None \<Rightarrow> Inl (Exception (''Not found column '' @ n @ '' in block. There are only columns: ''
                      @ dumpNames b) NOT_FOUND_COLUMN_IN_BLOCK)
      | Some it \<Rightarrow>
          (case distance (data b) it of None \<Rightarrow> Inl UndefinedBehaviour | Some p \<Rightarrow> Inr p))"

text \<open>
  \<^verbatim>\<open>Block::rows\<close>. The loop carries \<open>res\<close>; the message names the first column of the block
  (\<^verbatim>\<open>data.begin()->name\<close>) with \<open>res\<close>, and the current column with its size (\<open>sz\<close> is the source's \<^verbatim>\<open>size\<close>).
\<close>

fun rows_loop :: "memory \<Rightarrow> string \<Rightarrow> Container_t \<Rightarrow> nat \<Rightarrow> error + nat" where
  "rows_loop m first [] res = Inr res"
| "rows_loop m first (x # xs) res =
     (case column_size m (column (snd x)) of
        Inl e \<Rightarrow> Inl e
      | Inr sz \<Rightarrow>
          if res \<noteq> 0 \<and> sz \<noteq> res
          then Inl (Exception (''Sizes of columns doesn'' @ [CHR 0x27] @ ''t match: ''
                      @ first @ '': '' @ toString res
                      @ '', '' @ name (snd x) @ '': '' @ toString sz)
                    SIZES_OF_COLUMNS_DOESNT_MATCH)
          else rows_loop m first xs sz)"

definition rows :: "memory \<Rightarrow> Block \<Rightarrow> error + nat" where
  "rows m b = rows_loop m (case data b of [] \<Rightarrow> [] | x # xs \<Rightarrow> name (snd x)) (data b) 0"





text \<open>The structural comparators.\<close>

definition typesAreCompatible :: "IDataType \<Rightarrow> IDataType \<Rightarrow> bool" where
  "typesAreCompatible lhs rhs =
     (if behavesAsNumber lhs \<and> behavesAsNumber rhs then True
      else if behavesAsString lhs \<and> behavesAsString rhs then True
      else if getName lhs = getName rhs then True
      else False)"

function blocksHaveEqualStructure_loop :: "Block \<Rightarrow> Block \<Rightarrow> nat \<Rightarrow> nat \<Rightarrow> error + bool" where
  "blocksHaveEqualStructure_loop lhs rhs i cols =
     (if i < cols then
        (case getByPosition lhs i of
           Inl e \<Rightarrow> Inl e
         | Inr l \<Rightarrow>
             (case getByPosition rhs i of
                Inl e \<Rightarrow> Inl e
              | Inr r \<Rightarrow>
                  if getName (type l) \<noteq> getName (type r) then Inr False
                  else blocksHaveEqualStructure_loop lhs rhs (i + 1) cols))
      else Inr True)"
  by pat_completeness auto

termination
  by (relation "measure (\<lambda>(lhs, rhs, i, cols). cols - i)") auto

declare blocksHaveEqualStructure_loop.simps [simp del]

definition blocksHaveEqualStructure :: "Block \<Rightarrow> Block \<Rightarrow> error + bool" where
  "blocksHaveEqualStructure lhs rhs =
     (let cols = columns lhs
      in if columns rhs \<noteq> cols then Inr False
         else blocksHaveEqualStructure_loop lhs rhs 0 cols)"

function blocksHaveCompatibleStructure_loop :: "Block \<Rightarrow> Block \<Rightarrow> nat \<Rightarrow> nat \<Rightarrow> error + bool" where
  "blocksHaveCompatibleStructure_loop lhs rhs i cols =
     (if i < cols then
        (case getByPosition lhs i of
           Inl e \<Rightarrow> Inl e
         | Inr l \<Rightarrow>
             (case getByPosition rhs i of
                Inl e \<Rightarrow> Inl e
              | Inr r \<Rightarrow>
                  if \<not> typesAreCompatible (type l) (type r) then Inr False
                  else blocksHaveCompatibleStructure_loop lhs rhs (i + 1) cols))
      else Inr True)"
  by pat_completeness auto

termination
  by (relation "measure (\<lambda>(lhs, rhs, i, cols). cols - i)") auto

declare blocksHaveCompatibleStructure_loop.simps [simp del]

definition blocksHaveCompatibleStructure :: "Block \<Rightarrow> Block \<Rightarrow> error + bool" where
  "blocksHaveCompatibleStructure lhs rhs =
     (let cols = columns lhs
      in if columns rhs \<noteq> cols then Inr False
         else blocksHaveCompatibleStructure_loop lhs rhs 0 cols)"

text \<open>
  The mutations of the index-consistency property, as data: append, insert at a position,
  erase by position, erase by name.
\<close>

datatype operation =
    Insert ColumnWithNameAndType
  | InsertAt nat ColumnWithNameAndType
  | Erase nat
  | EraseName string

fun perform :: "Block \<Rightarrow> operation \<Rightarrow> error + Block" where
  "perform b (Insert elem) = Inr (Block_insert b elem)"
| "perform b (InsertAt position elem) = Block_insert_at b position elem"
| "perform b (Erase position) = Block_erase b position"
| "perform b (EraseName n) = Block_erase_name b n"

text \<open>A sequence runs from left to right and stops at the first operation that fails.\<close>

fun perform_all :: "Block \<Rightarrow> operation list \<Rightarrow> error + Block" where
  "perform_all b [] = Inr b"
| "perform_all b (operation # operations) =
     (case perform b operation of
        Inl e \<Rightarrow> Inl e
      | Inr b' \<Rightarrow> perform_all b' operations)"

section \<open>Vocabulary of the statements\<close>

text \<open>
  The definitions of this section are not translations of source functions. They name what
  the theorems talk about: the elements of a block in order, the consistency of the two
  indexes with the list, the blocks that an insertion and a removal are expected to
  produce, and the sizes and array objects of the columns.
\<close>

text \<open>The columns of a block, in list order.\<close>

definition elements :: "Block \<Rightarrow> ColumnWithNameAndType list" where
  "elements b = map snd (data b)"

text \<open>
  The two indexes agree with the list: node identities are unique, slot \<open>i\<close> of the position
  index designates the \<open>i\<close>-th node, every entry of the name index designates a node of the
  list that carries that name, and no node has the identity the allocator hands out next.
  The empty block has the property and every mutation preserves it.
\<close>

definition Block_wf :: "Block \<Rightarrow> bool" where
  "Block_wf b =
     (distinct (map fst (data b)) \<and>
      index_by_position b = map (\<lambda>x. Iterator (fst x)) (data b) \<and>
      (\<forall>n it. index_by_name b n = Some it \<longrightarrow>
         (\<exists>x \<in> set (data b). it = Iterator (fst x) \<and> name (snd x) = n)) \<and>
      (\<forall>x \<in> set (data b). fst x < next_node b))"

text \<open>
  What the specification says about insertion and removal, written on the list: the block
  with \<open>elem\<close> in a new node before position \<open>p\<close>, and the block without the node at
  position \<open>p\<close> and without the name-index entry of its name.
\<close>

definition inserted :: "Block \<Rightarrow> nat \<Rightarrow> ColumnWithNameAndType \<Rightarrow> Block" where
  "inserted b p elem =
     \<lparr>data = take p (data b) @ (next_node b, elem) # drop p (data b),
      index_by_position =
        map (\<lambda>x. Iterator (fst x)) (take p (data b) @ (next_node b, elem) # drop p (data b)),
      index_by_name = (index_by_name b)(name elem \<mapsto> Iterator (next_node b)),
      next_node = Suc (next_node b)\<rparr>"

definition removed :: "Block \<Rightarrow> nat \<Rightarrow> Block" where
  "removed b p =
     \<lparr>data = take p (data b) @ drop (Suc p) (data b),
      index_by_position =
        map (\<lambda>x. Iterator (fst x)) (take p (data b) @ drop (Suc p) (data b)),
      index_by_name = (index_by_name b)(name (snd (data b ! p)) := None),
      next_node = next_node b\<rparr>"

text \<open>The dump of names the specification asks for: the names joined by a comma and a space.\<close>

fun join_names :: "string list \<Rightarrow> string" where
  "join_names [] = []"
| "join_names [n] = n"
| "join_names (n # n' # ns) = n @ '', '' @ join_names (n' # ns)"

text \<open>
  Every element is registered in the name index under its own name (which makes the names
  unique), and a sequence of mutations never inserts a name the index already has.
\<close>

definition all_indexed :: "Block \<Rightarrow> bool" where
  "all_indexed b = (\<forall>x \<in> set (data b). index_by_name b (name (snd x)) = Some (Iterator (fst x)))"

fun inserts_new_names :: "Block \<Rightarrow> operation list \<Rightarrow> bool" where
  "inserts_new_names b [] = True"
| "inserts_new_names b (operation # operations) =
     ((case operation of
         Insert elem \<Rightarrow> \<not> has b (name elem)
       | InsertAt position elem \<Rightarrow> \<not> has b (name elem)
       | Erase position \<Rightarrow> True
       | EraseName n \<Rightarrow> True) \<and>
      (case perform b operation of
         Inl e \<Rightarrow> True
       | Inr b' \<Rightarrow> inserts_new_names b' operations))"

text \<open>
  The row counts of the columns in order, the message of \<^verbatim>\<open>rows\<close>, and the condition the
  loop of \<^verbatim>\<open>rows\<close> checks between the size seen last and the sizes still to come.
\<close>

definition size_or_zero :: "memory \<Rightarrow> ColumnPtr \<Rightarrow> nat" where
  "size_or_zero m c = (case column_size m c of Inl e \<Rightarrow> 0 | Inr n \<Rightarrow> n)"

definition column_sizes :: "memory \<Rightarrow> Block \<Rightarrow> nat list" where
  "column_sizes m b = map (\<lambda>x. size_or_zero m (column x)) (elements b)"

definition sizes_message :: "string \<Rightarrow> nat \<Rightarrow> string \<Rightarrow> nat \<Rightarrow> string" where
  "sizes_message first res current sz =
     ''Sizes of columns doesn'' @ [CHR 0x27] @ ''t match: '' @ first @ '': '' @ toString res
       @ '', '' @ current @ '': '' @ toString sz"

fun no_mismatch :: "nat \<Rightarrow> nat list \<Rightarrow> bool" where
  "no_mismatch res [] = True"
| "no_mismatch res (s # ss) = (\<not> (res \<noteq> 0 \<and> s \<noteq> res) \<and> no_mismatch s ss)"


fun array_objects :: "Container_t \<Rightarrow> addr list" where
  "array_objects [] = []"
| "array_objects (x # xs) =
     (case column (snd x) of
        ColumnArray a \<Rightarrow> a # array_objects xs
      | Null \<Rightarrow> array_objects xs
      | ColumnOther n \<Rightarrow> array_objects xs)"

fun first_array :: "(string \<Rightarrow> error + string) \<Rightarrow> Container_t \<Rightarrow> string \<Rightarrow> addr option" where
  "first_array extractNestedTableName [] table = None"
| "first_array extractNestedTableName (x # xs) table =
     (case column (snd x) of
        ColumnArray a \<Rightarrow>
          if extractNestedTableName (name (snd x)) = Inr table then Some a
          else first_array extractNestedTableName xs table
      | Null \<Rightarrow> first_array extractNestedTableName xs table
      | ColumnOther n \<Rightarrow> first_array extractNestedTableName xs table)"

section \<open>Example blocks\<close>

text \<open>
  Modelled from the spec: the three type descriptors of the specification's examples (the
  data type classes are not among the sources). Int32 and Int64 behave as number, String
  behaves as string.
\<close>

definition DataTypeInt32 :: IDataType where
  "DataTypeInt32 = \<lparr>getName = ''Int32'', behavesAsNumber = True, behavesAsString = False\<rparr>"

definition DataTypeInt64 :: IDataType where
  "DataTypeInt64 = \<lparr>getName = ''Int64'', behavesAsNumber = True, behavesAsString = False\<rparr>"

definition DataTypeString :: IDataType where
  "DataTypeString = \<lparr>getName = ''String'', behavesAsNumber = False, behavesAsString = True\<rparr>"

text \<open>
  A column that is not an array, with its row count; the block built by appending columns
  to the empty block; a memory for blocks without arrays.
\<close>

definition plain_column :: "string \<Rightarrow> IDataType \<Rightarrow> nat \<Rightarrow> ColumnWithNameAndType" where
  "plain_column n t sz = \<lparr>column = ColumnOther sz, type = t, name = n\<rparr>"

definition block_of :: "ColumnWithNameAndType list \<Rightarrow> Block" where
  "block_of elems = foldl Block_insert Block_empty elems"

definition no_arrays :: memory where
  "no_arrays = \<lparr>getOffsetsColumn = (\<lambda>a. a), getOffsets = (\<lambda>a. [])\<rparr>"

definition block_abc :: Block where
  "block_abc = block_of [plain_column ''a'' DataTypeInt32 5, plain_column ''b'' DataTypeInt32 5,
                         plain_column ''c'' DataTypeInt32 5]"




text \<open>
  The block left by appending two columns named \<open>a\<close> and erasing position 0: the second
  column is still there, the name index is empty.
\<close>

definition block_shadowed :: Block where
  "block_shadowed =
     \<lparr>data = [(1, plain_column ''a'' DataTypeInt32 7)], index_by_position = [Iterator 1],
      index_by_name = Map.empty, next_node = 2\<rparr>"

text \<open>The blocks and sequences of the examples below.\<close>

definition block_557 :: Block where
  "block_557 = block_of [plain_column ''a'' DataTypeInt32 5, plain_column ''b'' DataTypeInt32 5,
                         plain_column ''c'' DataTypeInt32 7]"

definition block_50 :: Block where
  "block_50 = block_of [plain_column ''a'' DataTypeInt32 5, plain_column ''b'' DataTypeInt32 0]"

definition shadowing_operations :: "operation list" where
  "shadowing_operations =
     [Insert (plain_column ''a'' DataTypeInt32 5), Insert (plain_column ''a'' DataTypeInt32 7),
      Erase 0]"

definition example_operations :: "operation list" where
  "example_operations =
     [Insert (plain_column ''a'' DataTypeInt32 5), Insert (plain_column ''b'' DataTypeInt32 5),
      InsertAt 1 (plain_column ''mid'' DataTypeInt32 5), Erase 0, EraseName ''b'']"

definition block_mid :: Block where
  "block_mid =
     \<lparr>data = [(2, plain_column ''mid'' DataTypeInt32 5)], index_by_position = [Iterator 2],
      index_by_name = [''mid'' \<mapsto> Iterator 2], next_node = 3\<rparr>"

definition block_x :: "IDataType \<Rightarrow> Block" where
  "block_x t = block_of [plain_column ''x'' t 3]"





section \<open>ExecutionSpeedLimits: the scenarios of the specification\<close>

lemma unat_minus_one_64: "unat (- 1 :: 64 word) = 18446744073709551615"
  by (simp add: unsigned_minus_1_eq_mask mask_eq_exp_minus_1)

text \<open>
  C1 (min-speed floor). With \<open>min_execution_speed = 1000\<close>, no grace period, 100 rows read
  after 2000000 elapsed microseconds and a throttler-sleep counter of 0, the specification
  expects \<open>TOO_SLOW\<close> (50 rows/sec is below 1000). The guard on line 50 compares the counter
  with the elapsed time the wrong way round, so the elapsed seconds stay 0, the block of
  checks is skipped and the call returns normally with the context untouched.
\<close>

theorem throttle_min_speed_floor_skipped:
  "throttle render
     (limits\<lparr>min_execution_speed := 1000, timeout_before_checking_execution_speed := 0\<rparr>)
     100 read_bytes total_rows 2000000
     \<lparr>ThrottlerSleepMicroseconds = 0, sleeps = slept\<rparr>
   = Inr \<lparr>ThrottlerSleepMicroseconds = 0, sleeps = slept\<rparr>"
  by (simp add: throttle_def elapsed_seconds_def totalMicroseconds_def)

text \<open>The scenario of C1 with every free parameter fixed.\<close>

theorem throttle_min_speed_floor_skipped_witness:
  "throttle (\<lambda>x. [])
     \<lparr>min_execution_speed = 1000, max_execution_speed = 0, min_execution_speed_bytes = 0,
      max_execution_speed_bytes = 0, max_execution_time = 0,
      timeout_before_checking_execution_speed = 0\<rparr>
     100 4096 0 2000000 \<lparr>ThrottlerSleepMicroseconds = 0, sleeps = []\<rparr>
   = Inr \<lparr>ThrottlerSleepMicroseconds = 0, sleeps = []\<rparr>"
  using throttle_min_speed_floor_skipped
    [of "\<lambda>x. []"
        "\<lparr>min_execution_speed = 1000, max_execution_speed = 0, min_execution_speed_bytes = 0,
          max_execution_speed_bytes = 0, max_execution_time = 0,
          timeout_before_checking_execution_speed = 0\<rparr>" 4096 0 "[]"]
  by simp

text \<open>
  C2 (elapsed-seconds correction). The specification's corrected time is elapsed minus
  slept, and no check runs when it is not positive. In the code, 2000000 elapsed
  microseconds with nothing slept give 0 seconds instead of 2; and 1 elapsed microsecond
  with 2 microseconds slept (a corrected time below zero) gives the wrapped difference
  \<open>2^64 - 1\<close> microseconds, on which the min-speed check runs and raises \<open>TOO_SLOW\<close>.
\<close>

theorem throttle_elapsed_correction_inverted:
  "elapsed_seconds 2000000 0 = 0 \<and>
   elapsed_seconds 1 2 = 18446744073709551615 / 1000000 \<and>
   (\<exists>message.
      throttle render
        (limits\<lparr>min_execution_speed := 1000, timeout_before_checking_execution_speed := 0\<rparr>)
        100 read_bytes total_rows 1
        \<lparr>ThrottlerSleepMicroseconds = 2, sleeps = slept\<rparr>
      = Inl (Exception message TOO_SLOW))"
  by (simp add: throttle_def elapsed_seconds_def totalMicroseconds_def unat_minus_one_64 Let_def)

text \<open>The scenario of C2 with every free parameter fixed.\<close>

theorem throttle_elapsed_correction_inverted_witness:
  "elapsed_seconds 2000000 0 = 0 \<and>
   elapsed_seconds 1 2 = 18446744073709551615 / 1000000 \<and>
   (\<exists>message.
      throttle (\<lambda>x. [])
        \<lparr>min_execution_speed = 1000, max_execution_speed = 0, min_execution_speed_bytes = 0,
         max_execution_speed_bytes = 0, max_execution_time = 0,
         timeout_before_checking_execution_speed = 0\<rparr>
        100 4096 0 1 \<lparr>ThrottlerSleepMicroseconds = 2, sleeps = []\<rparr>
      = Inl (Exception message TOO_SLOW))"
  using throttle_elapsed_correction_inverted
    [of "\<lambda>x. []"
        "\<lparr>min_execution_speed = 1000, max_execution_speed = 0, min_execution_speed_bytes = 0,
          max_execution_speed_bytes = 0, max_execution_time = 0,
          timeout_before_checking_execution_speed = 0\<rparr>" 4096 0 "[]"]
  by simp

text \<open>
  C3 (max-speed throttle). With \<open>max_execution_speed = 100\<close>, 1000 rows read after 1000000
  elapsed microseconds and a counter of 0, the specification expects a sleep.
  \<^verbatim>\<open>limitProgressingSpeed\<close> on these numbers would sleep 1000000 microseconds and add them
  to the counter, but \<^verbatim>\<open>throttle\<close> never reaches it: the elapsed seconds are 0 for the
  same reason as in C1, so the call returns with no sleep and the counter unchanged.
\<close>

theorem throttle_max_speed_no_sleep:
  "throttle render
     (limits\<lparr>min_execution_speed := 0, min_execution_speed_bytes := 0,
        max_execution_speed := 100, timeout_before_checking_execution_speed := 0\<rparr>)
     1000 read_bytes total_rows 1000000
     \<lparr>ThrottlerSleepMicroseconds = 0, sleeps = slept\<rparr>
   = Inr \<lparr>ThrottlerSleepMicroseconds = 0, sleeps = slept\<rparr> \<and>
   limitProgressingSpeed 1000 100 1000000 \<lparr>ThrottlerSleepMicroseconds = 0, sleeps = slept\<rparr>
   = \<lparr>ThrottlerSleepMicroseconds = 1000000, sleeps = slept @ [1000000]\<rparr>"
  by (simp add: throttle_def elapsed_seconds_def totalMicroseconds_def
      limitProgressingSpeed_def increment_def sleepForMicroseconds_def)

text \<open>The scenario of C3 with every free parameter fixed.\<close>

theorem throttle_max_speed_no_sleep_witness:
  "throttle (\<lambda>x. [])
     \<lparr>min_execution_speed = 0, max_execution_speed = 100, min_execution_speed_bytes = 0,
      max_execution_speed_bytes = 0, max_execution_time = 0,
      timeout_before_checking_execution_speed = 0\<rparr>
     1000 4096 0 1000000 \<lparr>ThrottlerSleepMicroseconds = 0, sleeps = []\<rparr>
   = Inr \<lparr>ThrottlerSleepMicroseconds = 0, sleeps = []\<rparr> \<and>
   limitProgressingSpeed 1000 100 1000000 \<lparr>ThrottlerSleepMicroseconds = 0, sleeps = []\<rparr>
   = \<lparr>ThrottlerSleepMicroseconds = 1000000, sleeps = [1000000]\<rparr>"
  using throttle_max_speed_no_sleep
    [of "\<lambda>x. []"
        "\<lparr>min_execution_speed = 0, max_execution_speed = 100, min_execution_speed_bytes = 0,
          max_execution_speed_bytes = 0, max_execution_time = 0,
          timeout_before_checking_execution_speed = 0\<rparr>" 4096 0 "[]"]
  by simp

section \<open>The list operations and the shifting loops\<close>

lemma list_insert_nth:
  "distinct (map fst xs) \<Longrightarrow> p < length xs \<Longrightarrow>
   list_insert xs (Iterator (fst (xs ! p))) node = Some (take p xs @ node # drop p xs)"
proof (induction xs arbitrary: p)
  case Nil
  then show ?case by simp
next
  case (Cons x xs)
  show ?case
  proof (cases p)
    case 0
    then show ?thesis by simp
  next
    case (Suc q)
    with Cons.prems have "fst (xs ! q) \<in> set (map fst xs)" and "fst x \<notin> set (map fst xs)"
      by auto
    then have "fst (xs ! q) \<noteq> fst x" by metis
    with Cons Suc show ?thesis by simp
  qed
qed

lemma list_erase_nth:
  "distinct (map fst xs) \<Longrightarrow> p < length xs \<Longrightarrow>
   list_erase xs (Iterator (fst (xs ! p))) = Some (take p xs @ drop (Suc p) xs)"
proof (induction xs arbitrary: p)
  case Nil
  then show ?case by simp
next
  case (Cons x xs)
  show ?case
  proof (cases p)
    case 0
    then show ?thesis by simp
  next
    case (Suc q)
    with Cons.prems have "fst (xs ! q) \<in> set (map fst xs)" and "fst x \<notin> set (map fst xs)"
      by auto
    then have "fst (xs ! q) \<noteq> fst x" by metis
    with Cons Suc show ?thesis by simp
  qed
qed

lemma distance_nth:
  "distinct (map fst xs) \<Longrightarrow> p < length xs \<Longrightarrow> distance xs (Iterator (fst (xs ! p))) = Some p"
proof (induction xs arbitrary: p)
  case Nil
  then show ?case by simp
next
  case (Cons x xs)
  show ?case
  proof (cases p)
    case 0
    then show ?thesis by simp
  next
    case (Suc q)
    with Cons.prems have "fst (xs ! q) \<in> set (map fst xs)" and "fst x \<notin> set (map fst xs)"
      by auto
    then have "fst (xs ! q) \<noteq> fst x" by metis
    with Cons Suc show ?thesis by simp
  qed
qed

lemma dereference_nth:
  "distinct (map fst xs) \<Longrightarrow> p < length xs \<Longrightarrow>
   dereference xs (Iterator (fst (xs ! p))) = Inr (snd (xs ! p))"
proof (induction xs arbitrary: p)
  case Nil
  then show ?case by simp
next
  case (Cons x xs)
  show ?case
  proof (cases p)
    case 0
    then show ?thesis by simp
  next
    case (Suc q)
    with Cons.prems have "fst (xs ! q) \<in> set (map fst xs)" and "fst x \<notin> set (map fst xs)"
      by auto
    then have "fst (xs ! q) \<noteq> fst x" by metis
    with Cons Suc show ?thesis by simp
  qed
qed

lemma distance_Some:
  "distance xs it = Some p \<Longrightarrow> p < length xs \<and> it = Iterator (fst (xs ! p))"
  by (induction xs arbitrary: p) (auto split: if_splits)

lemma distance_None:
  "distance xs it = None \<Longrightarrow> \<forall>x \<in> set xs. it \<noteq> Iterator (fst x)"
  by (induction xs) (auto split: if_splits)

lemma length_shift_right [simp]: "length (shift_right ibp i position) = length ibp"
  by (induction ibp i position rule: shift_right.induct)
     (subst shift_right.simps, simp)

lemma shift_right_nth:
  "i < length ibp \<Longrightarrow> j < length ibp \<Longrightarrow>
   shift_right ibp i position ! j =
     (if position < j \<and> j \<le> i then ibp ! (j - 1) else ibp ! j)"
proof (induction ibp i position arbitrary: j rule: shift_right.induct)
  case (1 ibp i position)
  show ?case
  proof (cases "i > position")
    case False
    then show ?thesis by (subst shift_right.simps) auto
  next
    case True
    have "shift_right ibp i position ! j =
          shift_right (ibp[i := ibp ! (i - 1)]) (i - 1) position ! j"
      using True by (subst shift_right.simps) simp
    also have "\<dots> = (if position < j \<and> j \<le> i - 1
                     then (ibp[i := ibp ! (i - 1)]) ! (j - 1) else (ibp[i := ibp ! (i - 1)]) ! j)"
      using "1.IH" [OF True, of j] "1.prems" by simp
    also have "\<dots> = (if position < j \<and> j \<le> i then ibp ! (j - 1) else ibp ! j)"
      using True "1.prems" by (auto simp: nth_list_update)
    finally show ?thesis .
  qed
qed

lemma length_shift_left [simp]: "length (shift_left ibp i sz) = length ibp"
  by (induction ibp i sz rule: shift_left.induct)
     (subst shift_left.simps, simp)

lemma shift_left_nth:
  "sz < length ibp \<Longrightarrow> j < length ibp \<Longrightarrow>
   shift_left ibp i sz ! j = (if i \<le> j \<and> j < sz then ibp ! (j + 1) else ibp ! j)"
proof (induction ibp i sz arbitrary: j rule: shift_left.induct)
  case (1 ibp i sz)
  show ?case
  proof (cases "i < sz")
    case False
    then show ?thesis by (subst shift_left.simps) auto
  next
    case True
    have "shift_left ibp i sz ! j = shift_left (ibp[i := ibp ! (i + 1)]) (i + 1) sz ! j"
      using True by (subst shift_left.simps) simp
    also have "\<dots> = (if i + 1 \<le> j \<and> j < sz
                     then (ibp[i := ibp ! (i + 1)]) ! (j + 1) else (ibp[i := ibp ! (i + 1)]) ! j)"
      using "1.IH" [OF True, of j] "1.prems" by simp
    also have "\<dots> = (if i \<le> j \<and> j < sz then ibp ! (j + 1) else ibp ! j)"
      using True "1.prems" by (auto simp: nth_list_update)
    finally show ?thesis .
  qed
qed

lemma shift_right_insert:
  assumes "position < length ibp"
  shows "(shift_right (ibp @ [z]) (length ibp) position)[position := it]
         = take position ibp @ it # drop position ibp"
proof (rule nth_equalityI)
  show "length ((shift_right (ibp @ [z]) (length ibp) position)[position := it])
        = length (take position ibp @ it # drop position ibp)"
    using assms by simp
next
  fix j
  assume "j < length ((shift_right (ibp @ [z]) (length ibp) position)[position := it])"
  then have j: "j < Suc (length ibp)" by simp
  consider "j < position" | "j = position" | "position < j" by linarith
  then show "(shift_right (ibp @ [z]) (length ibp) position)[position := it] ! j
        = (take position ibp @ it # drop position ibp) ! j"
  proof cases
    case 1
    with assms j show ?thesis
      by (simp add: shift_right_nth nth_append)
  next
    case 2
    with assms j show ?thesis
      by (simp add: nth_append)
  next
    case 3
    then obtain k where k: "j = Suc (position + k)"
      by (metis less_imp_Suc_add)
    with assms j show ?thesis
      by (simp add: shift_right_nth nth_append)
  qed
qed

lemma shift_left_erase:
  assumes "position < length ibp"
  shows "take (length ibp - 1) (shift_left ibp position (length ibp - 1))
         = take position ibp @ drop (Suc position) ibp"
proof (rule nth_equalityI)
  show "length (take (length ibp - 1) (shift_left ibp position (length ibp - 1)))
        = length (take position ibp @ drop (Suc position) ibp)"
    using assms by auto
next
  fix j
  assume "j < length (take (length ibp - 1) (shift_left ibp position (length ibp - 1)))"
  then have j: "j < length ibp - 1" by simp
  then show "take (length ibp - 1) (shift_left ibp position (length ibp - 1)) ! j
        = (take position ibp @ drop (Suc position) ibp) ! j"
    using assms
    by (auto simp: shift_left_nth nth_append min_def)
qed

lemma Block_wf_empty: "Block_wf Block_empty"
  by (simp add: Block_wf_def Block_empty_def)

lemma Block_wf_length: "Block_wf b \<Longrightarrow> length (index_by_position b) = length (data b)"
  by (simp add: Block_wf_def)

lemma Block_wf_inserted:
  assumes "Block_wf b" and "p \<le> length (data b)"
  shows "Block_wf (inserted b p elem)"
proof -
  let ?d = "data b" and ?node = "(next_node b, elem)"
  from assms(1) have dist: "distinct (map fst ?d)"
    and ibn: "\<And>n it. index_by_name b n = Some it \<Longrightarrow>
               \<exists>x \<in> set ?d. it = Iterator (fst x) \<and> name (snd x) = n"
    and fresh: "\<And>x. x \<in> set ?d \<Longrightarrow> fst x < next_node b"
    by (auto simp: Block_wf_def)
  have set_eq: "set (take p ?d @ ?node # drop p ?d) = insert ?node (set ?d)"
    by (metis append_take_drop_id list.simps(15) set_append Un_insert_right)
  have "next_node b \<notin> fst ` set ?d"
    using fresh by fastforce
  moreover have "distinct (map fst (take p ?d) @ map fst (drop p ?d))"
    using dist by (metis append_take_drop_id map_append)
  ultimately have d1: "distinct (map fst (take p ?d @ ?node # drop p ?d))"
    by (auto dest: in_set_takeD in_set_dropD)
  have d2: "\<forall>n it. ((index_by_name b)(name elem \<mapsto> Iterator (next_node b))) n = Some it \<longrightarrow>
              (\<exists>x \<in> set (take p ?d @ ?node # drop p ?d). it = Iterator (fst x) \<and> name (snd x) = n)"
    unfolding set_eq using ibn by (auto split: if_splits)
  have d3: "\<forall>x \<in> set (take p ?d @ ?node # drop p ?d). fst x < Suc (next_node b)"
    unfolding set_eq using fresh by (auto simp: less_Suc_eq)
  from d1 d2 d3 show ?thesis
    unfolding Block_wf_def inserted_def by simp
qed

lemma Block_wf_removed:
  assumes "Block_wf b" and "p < length (data b)"
  shows "Block_wf (removed b p)"
proof -
  let ?d = "data b"
  let ?d' = "take p ?d @ drop (Suc p) ?d"
  from assms(1) have dist: "distinct (map fst ?d)"
    and ibn: "\<And>n it. index_by_name b n = Some it \<Longrightarrow>
               \<exists>x \<in> set ?d. it = Iterator (fst x) \<and> name (snd x) = n"
    and fresh: "\<And>x. x \<in> set ?d \<Longrightarrow> fst x < next_node b"
    by (auto simp: Block_wf_def)
  have split: "?d = take p ?d @ (?d ! p) # drop (Suc p) ?d"
    using assms(2) by (simp add: id_take_nth_drop)
  have subset: "set ?d' \<subseteq> set ?d"
    by (auto dest: in_set_takeD in_set_dropD)
  have rest: "x \<in> set ?d'" if "x \<in> set ?d" and "x \<noteq> ?d ! p" for x
    using that by (subst (asm) split) auto
  have d1: "distinct (map fst ?d')"
    using dist by (subst (asm) split) simp
  have d2: "\<forall>n it. ((index_by_name b)(name (snd (?d ! p)) := None)) n = Some it \<longrightarrow>
              (\<exists>x \<in> set ?d'. it = Iterator (fst x) \<and> name (snd x) = n)"
  proof (intro allI impI)
    fix n it
    assume a: "((index_by_name b)(name (snd (?d ! p)) := None)) n = Some it"
    then have n: "n \<noteq> name (snd (?d ! p))" and "index_by_name b n = Some it"
      by (auto split: if_splits)
    then obtain x where x: "x \<in> set ?d" "it = Iterator (fst x)" "name (snd x) = n"
      using ibn by blast
    with n have "x \<noteq> ?d ! p" by auto
    with x rest show "\<exists>x \<in> set ?d'. it = Iterator (fst x) \<and> name (snd x) = n"
      by blast
  qed
  have d3: "\<forall>x \<in> set ?d'. fst x < next_node b"
    using subset fresh by blast
  from d1 d2 d3 show ?thesis
    unfolding Block_wf_def removed_def by simp
qed

lemma Block_insert_eq: "Block_wf b \<Longrightarrow> Block_insert b elem = inserted b (length (data b)) elem"
  by (simp add: Block_insert_def inserted_def Block_wf_def Let_def)

lemma Block_insert_at_eq:
  assumes "Block_wf b" and "p \<le> length (data b)"
  shows "Block_insert_at b p elem = Inr (inserted b p elem)"
proof (cases "p = length (data b)")
  case True
  with assms show ?thesis
    by (simp add: Block_insert_at_def Block_insert_eq Block_wf_length)
next
  case False
  with assms have p: "p < length (data b)" by simp
  from assms(1) have dist: "distinct (map fst (data b))"
    and ibp: "index_by_position b = map (\<lambda>x. Iterator (fst x)) (data b)"
    by (auto simp: Block_wf_def)
  have it: "index_by_position b ! p = Iterator (fst (data b ! p))"
    using p by (simp add: ibp)
  have ins: "list_insert (data b) (index_by_position b ! p) (next_node b, elem)
             = Some (take p (data b) @ (next_node b, elem) # drop p (data b))"
    unfolding it using dist p by (rule list_insert_nth)
  have shift: "(shift_right (index_by_position b @ [Singular]) (length (index_by_position b)) p)
                 [p := Iterator (next_node b)]
               = take p (index_by_position b) @ Iterator (next_node b) # drop p (index_by_position b)"
    using p by (intro shift_right_insert) (simp add: ibp)
  show ?thesis
    using p ins shift
    by (simp add: Block_insert_at_def inserted_def Block_wf_length [OF assms(1)] Let_def)
       (simp add: ibp take_map drop_map)
qed

lemma Block_insert_at_out_of_bound:
  "Block_wf b \<Longrightarrow> length (data b) < p \<Longrightarrow>
   Block_insert_at b p elem =
     Inl (Exception (''Position out of bound in Block::insert(), max position = ''
            @ toString (length (data b))) POSITION_OUT_OF_BOUND)"
  by (simp add: Block_insert_at_def Block_wf_length)

lemma Block_erase_eq:
  assumes "Block_wf b" and "p < length (data b)"
  shows "Block_erase b p =
           (if index_by_name b (name (snd (data b ! p))) = None then Inl UndefinedBehaviour
            else Inr (removed b p))"
proof -
  from assms(1) have dist: "distinct (map fst (data b))"
    and ibp: "index_by_position b = map (\<lambda>x. Iterator (fst x)) (data b)"
    by (auto simp: Block_wf_def)
  have it: "index_by_position b ! p = Iterator (fst (data b ! p))"
    using assms(2) by (simp add: ibp)
  have deref: "dereference (data b) (index_by_position b ! p) = Inr (snd (data b ! p))"
    unfolding it using dist assms(2) by (rule dereference_nth)
  have er: "list_erase (data b) (index_by_position b ! p)
            = Some (take p (data b) @ drop (Suc p) (data b))"
    unfolding it using dist assms(2) by (rule list_erase_nth)
  have shift: "take (length (index_by_position b) - 1)
                 (shift_left (index_by_position b) p (length (index_by_position b) - 1))
               = take p (index_by_position b) @ drop (Suc p) (index_by_position b)"
    using assms(2) by (intro shift_left_erase) (simp add: ibp)
  show ?thesis
    using assms(2) deref er shift
    by (auto simp: Block_erase_def removed_def Block_wf_length [OF assms(1)] Let_def)
       (simp_all add: ibp take_map drop_map)
qed

lemma Block_erase_out_of_bound:
  "Block_wf b \<Longrightarrow> length (data b) \<le> p \<Longrightarrow>
   Block_erase b p =
     Inl (Exception (''Position out of bound in Block::erase(), max position = ''
            @ toString (length (data b))) POSITION_OUT_OF_BOUND)"
  by (simp add: Block_erase_def Block_wf_length)

lemma Block_erase_name_eq:
  assumes "Block_wf b" and "index_by_name b n = Some it"
  shows "\<exists>p < length (data b). it = Iterator (fst (data b ! p)) \<and> name (snd (data b ! p)) = n \<and>
           distance (data b) it = Some p \<and> Block_erase_name b n = Inr (removed b p)"
proof -
  from assms(1) have dist: "distinct (map fst (data b))"
    and ibp: "index_by_position b = map (\<lambda>x. Iterator (fst x)) (data b)"
    by (auto simp: Block_wf_def)
  from assms obtain x where x: "x \<in> set (data b)" "it = Iterator (fst x)" "name (snd x) = n"
    unfolding Block_wf_def by blast
  then obtain p where p: "p < length (data b)" "data b ! p = x"
    by (auto simp: in_set_conv_nth)
  have it: "it = Iterator (fst (data b ! p))" using x p by simp
  have di: "distance (data b) it = Some p"
    unfolding it using dist p(1) by (rule distance_nth)
  have er: "list_erase (data b) it = Some (take p (data b) @ drop (Suc p) (data b))"
    unfolding it using dist p(1) by (rule list_erase_nth)
  have shift: "take (length (index_by_position b) - 1)
                 (shift_left (index_by_position b) p (length (index_by_position b) - 1))
               = take p (index_by_position b) @ drop (Suc p) (index_by_position b)"
    using p(1) by (intro shift_left_erase) (simp add: ibp)
  have "Block_erase_name b n = Inr (removed b p)"
    using assms(2) di er shift x p
    by (simp add: Block_erase_name_def removed_def Let_def)
       (simp add: ibp take_map drop_map)
  with p it x di show ?thesis by auto
qed

lemma getByPosition_eq:
  "Block_wf b \<Longrightarrow> i < length (data b) \<Longrightarrow> getByPosition b i = Inr (elements b ! i)"
  by (simp add: getByPosition_def Block_wf_def elements_def dereference_nth)

lemma columns_eq: "Block_wf b \<Longrightarrow> columns b = length (data b)"
  by (simp add: columns_def Block_wf_def)

lemma nth_insert_before:
  "p \<le> length xs \<Longrightarrow> i < p \<Longrightarrow> (take p xs @ y # drop p xs) ! i = xs ! i"
  by (simp add: nth_append)

lemma nth_insert_at:
  "p \<le> length xs \<Longrightarrow> (take p xs @ y # drop p xs) ! p = y"
  by (simp add: nth_append)

lemma nth_insert_after:
  assumes "p \<le> i" and "i < length xs"
  shows "(take p xs @ y # drop p xs) ! Suc i = xs ! i"
proof -
  obtain k where k: "i = p + k" using assms(1) by (metis le_Suc_ex)
  have "length (take p xs) = p" using assms k by simp
  then have "(take p xs @ y # drop p xs) ! (p + Suc k) = (y # drop p xs) ! Suc k"
    by (metis nth_append_length_plus)
  then show ?thesis using assms k by simp
qed

lemma data_inserted_nth:
  "p \<le> length (data b) \<Longrightarrow> i < length (data b) \<Longrightarrow>
   data (inserted b p elem) ! (if i < p then i else Suc i) = data b ! i"
  by (simp add: inserted_def nth_insert_before nth_insert_after)

lemma data_inserted_at:
  "p \<le> length (data b) \<Longrightarrow> data (inserted b p elem) ! p = (next_node b, elem)"
  by (simp add: inserted_def nth_insert_at)

lemma getPositionByName_inserted_new:
  assumes "Block_wf b" and "p \<le> length (data b)"
  shows "getPositionByName (inserted b p elem) (name elem) = Inr p"
proof -
  have wf': "Block_wf (inserted b p elem)"
    using assms by (rule Block_wf_inserted)
  have len: "p < length (data (inserted b p elem))"
    using assms(2) by (simp add: inserted_def)
  have nth: "data (inserted b p elem) ! p = (next_node b, elem)"
    using assms(2) by (rule data_inserted_at)
  have "distance (data (inserted b p elem)) (Iterator (fst (data (inserted b p elem) ! p))) = Some p"
    using wf' len by (intro distance_nth) (simp_all add: Block_wf_def)
  then have "distance (data (inserted b p elem)) (Iterator (next_node b)) = Some p"
    by (simp add: nth)
  moreover have "index_by_name (inserted b p elem) (name elem) = Some (Iterator (next_node b))"
    by (simp add: inserted_def)
  ultimately show ?thesis
    by (simp add: getPositionByName_def)
qed

lemma getPositionByName_inserted_old:
  assumes "Block_wf b" and "p \<le> length (data b)"
    and "n \<noteq> name elem" and "getPositionByName b n = Inr i"
  shows "getPositionByName (inserted b p elem) n = Inr (if i < p then i else Suc i)"
proof -
  let ?b' = "inserted b p elem" and ?i' = "if i < p then i else Suc i"
  from assms(4) obtain it where it: "index_by_name b n = Some it" "distance (data b) it = Some i"
    by (auto simp: getPositionByName_def split: option.splits)
  then have i: "i < length (data b)" "it = Iterator (fst (data b ! i))"
    using distance_Some by blast+
  have wf': "Block_wf ?b'"
    using assms(1,2) by (rule Block_wf_inserted)
  have len: "?i' < length (data ?b')"
    using i(1) assms(2) by (simp add: inserted_def)
  have nth: "data ?b' ! ?i' = data b ! i"
    using assms(2) i(1) by (rule data_inserted_nth)
  have "distance (data ?b') (Iterator (fst (data ?b' ! ?i'))) = Some ?i'"
    using wf' len by (intro distance_nth) (simp_all add: Block_wf_def)
  then have "distance (data ?b') it = Some ?i'"
    by (simp only: nth i(2))
  moreover have "index_by_name ?b' n = Some it"
    using assms(3) it(1) by (simp add: inserted_def)
  ultimately show ?thesis
    by (simp add: getPositionByName_def)
qed

text \<open>
  C4. On a well-formed block of \<open>n = columns b\<close> elements, \<open>insert(p, e)\<close> throws
  \<open>POSITION_OUT_OF_BOUND\<close> exactly when \<open>p > n\<close> and fails in no other way; for \<open>p = n\<close>
  it is the append; and for every \<open>p \<le> n\<close> the new block has \<open>e\<close> at position \<open>p\<close>, the
  elements before \<open>p\<close> where they were, the elements from \<open>p\<close> on one position higher, the
  name of \<open>e\<close> mapped to \<open>p\<close> and every other name mapped to the new position of its element.
\<close>

theorem Block_insert_at_position:
  assumes "Block_wf b"
  shows "(\<exists>e. Block_insert_at b p elem = Inl e) = (columns b < p) \<and>
         (columns b < p \<longrightarrow>
            (\<exists>message. Block_insert_at b p elem = Inl (Exception message POSITION_OUT_OF_BOUND))) \<and>
         (p = columns b \<longrightarrow> Block_insert_at b p elem = Inr (Block_insert b elem)) \<and>
         (p \<le> columns b \<longrightarrow>
            (\<exists>b'. Block_insert_at b p elem = Inr b' \<and> Block_wf b' \<and>
               columns b' = Suc (columns b) \<and>
               getByPosition b' p = Inr elem \<and>
               (\<forall>i < p. getByPosition b' i = getByPosition b i) \<and>
               (\<forall>i. p \<le> i \<and> i < columns b \<longrightarrow> getByPosition b' (Suc i) = getByPosition b i) \<and>
               getPositionByName b' (name elem) = Inr p \<and>
               (\<forall>n i. n \<noteq> name elem \<and> getPositionByName b n = Inr i \<longrightarrow>
                  getPositionByName b' n = Inr (if i < p then i else Suc i))))"
proof (cases "p \<le> columns b")
  case False
  with assms show ?thesis
    by (simp add: columns_eq Block_insert_at_out_of_bound)
next
  case True
  then have p: "p \<le> length (data b)"
    using assms by (simp add: columns_eq)
  let ?b' = "inserted b p elem"
  have eq: "Block_insert_at b p elem = Inr ?b'"
    using assms p by (rule Block_insert_at_eq)
  have wf': "Block_wf ?b'"
    using assms p by (rule Block_wf_inserted)
  have len': "length (data ?b') = Suc (length (data b))"
    using p by (simp add: inserted_def)
  have els: "elements ?b' = take p (elements b) @ elem # drop p (elements b)"
    by (simp add: elements_def inserted_def take_map drop_map)
  have at_p: "getByPosition ?b' p = Inr elem"
    using wf' p len' by (simp add: getByPosition_eq elements_def data_inserted_at)
  have before: "getByPosition ?b' i = getByPosition b i" if "i < p" for i
    using that wf' assms p len' data_inserted_nth [of p b i elem]
    by (simp add: getByPosition_eq elements_def)
  have after: "getByPosition ?b' (Suc i) = getByPosition b i"
    if "p \<le> i" and "i < columns b" for i
  proof -
    from that assms have i: "i < length (data b)" by (simp add: columns_eq)
    have "data ?b' ! Suc i = data b ! i"
      using data_inserted_nth [of p b i elem] p i that(1) by simp
    then show ?thesis
      using wf' assms i len' by (simp add: getByPosition_eq elements_def)
  qed
  have append: "Block_insert_at b p elem = Inr (Block_insert b elem)" if "p = columns b"
    using that assms eq by (simp add: Block_insert_eq columns_eq)
  show ?thesis
    using True eq wf' len' at_p before after append assms
      getPositionByName_inserted_new [OF assms p]
      getPositionByName_inserted_old [OF assms p]
    by (simp add: columns_eq)
qed

lemma dumpNames_loop_False:
  "dumpNames_loop False xs res = res @ concat (map (\<lambda>x. '', '' @ name (snd x)) xs)"
  by (induction xs arbitrary: res) simp_all

lemma join_names_Cons:
  "join_names (n # ns) = n @ concat (map (\<lambda>n'. '', '' @ n') ns)"
  by (induction ns arbitrary: n) simp_all

lemma dumpNames_eq: "dumpNames b = join_names (map name (elements b))"
proof (cases "data b")
  case Nil
  then show ?thesis by (simp add: dumpNames_def elements_def)
next
  case (Cons x xs)
  then show ?thesis
    by (simp add: dumpNames_def elements_def dumpNames_loop_False join_names_Cons comp_def
        del: join_names.simps)
qed

lemma has_element:
  "Block_wf b \<Longrightarrow> has b n \<Longrightarrow> n \<in> name ` set (elements b)"
  unfolding Block_wf_def has_def elements_def by force

lemma all_indexed_has:
  "all_indexed b \<Longrightarrow> n \<in> name ` set (elements b) \<Longrightarrow> has b n"
  unfolding all_indexed_def has_def elements_def by force

text \<open>
  C8, as the code has it. For a name that no element of a well-formed block carries, the
  three name-based operations throw \<open>NOT_FOUND_COLUMN_IN_BLOCK\<close>. The messages of
  \<open>getByName\<close> and \<open>getPositionByName\<close> end with the dump of all names, in order; the
  message of \<open>erase(name)\<close> quotes the requested name and nothing else.
\<close>

theorem name_lookup_miss:
  assumes "Block_wf b" and "n \<notin> name ` set (elements b)"
  shows "getByName b n =
           Inl (Exception (''Not found column '' @ n @ '' in block. There are only columns: ''
                  @ join_names (map name (elements b))) NOT_FOUND_COLUMN_IN_BLOCK) \<and>
         getPositionByName b n =
           Inl (Exception (''Not found column '' @ n @ '' in block. There are only columns: ''
                  @ join_names (map name (elements b))) NOT_FOUND_COLUMN_IN_BLOCK) \<and>
         Block_erase_name b n =
           Inl (Exception (''No such name in Block::erase(): '' @ [CHR 0x27] @ n @ [CHR 0x27])
                  NOT_FOUND_COLUMN_IN_BLOCK)"
proof -
  have "index_by_name b n = None"
    using assms has_element [of b n] by (auto simp: has_def)
  then show ?thesis
    by (simp add: getByName_def getPositionByName_def Block_erase_name_def dumpNames_eq)
qed

text \<open>
  C9, as the code has it. The test of \<open>insertUnique\<close> is the name index (\<open>has\<close>): without
  an entry for the name the call is the append, with \<open>elem\<close> last and its name mapped to
  the last position; with an entry the block is returned as it is. The name index has an
  entry for every element's name as long as no name was inserted twice
  (\<open>all_indexed\<close>); then the test is whether some element carries the name.
\<close>

theorem insertUnique_by_name_index:
  assumes "Block_wf b"
  shows "(\<not> has b (name elem) \<longrightarrow>
            insertUnique b elem = Block_insert b elem \<and>
            elements (insertUnique b elem) = elements b @ [elem] \<and>
            getPositionByName (insertUnique b elem) (name elem) = Inr (columns b) \<and>
            Block_wf (insertUnique b elem)) \<and>
         (has b (name elem) \<longrightarrow> insertUnique b elem = b) \<and>
         (all_indexed b \<longrightarrow> has b (name elem) = (name elem \<in> name ` set (elements b)))"
proof -
  have ins: "Block_insert b elem = inserted b (length (data b)) elem"
    using assms by (rule Block_insert_eq)
  have "elements (Block_insert b elem) = elements b @ [elem]"
    by (simp add: ins inserted_def elements_def)
  moreover have "getPositionByName (Block_insert b elem) (name elem) = Inr (columns b)"
    using assms getPositionByName_inserted_new [of b "length (data b)" elem]
    by (simp add: ins columns_eq)
  moreover have "Block_wf (Block_insert b elem)"
    using assms by (simp add: ins Block_wf_inserted)
  moreover have "all_indexed b \<Longrightarrow> has b (name elem) = (name elem \<in> name ` set (elements b))"
    using assms has_element all_indexed_has by blast
  ultimately show ?thesis
    by (simp add: insertUnique_def has_def)
qed

lemma all_from_next:
  fixes i :: nat
  assumes "P i"
  shows "(\<forall>j. i + 1 \<le> j \<and> j < n \<longrightarrow> P j) = (\<forall>j. i \<le> j \<and> j < n \<longrightarrow> P j)"
proof
  assume rest: "\<forall>j. i + 1 \<le> j \<and> j < n \<longrightarrow> P j"
  show "\<forall>j. i \<le> j \<and> j < n \<longrightarrow> P j"
  proof (intro allI impI)
    fix j
    assume j: "i \<le> j \<and> j < n"
    show "P j"
    proof (cases "j = i")
      case True
      with assms show ?thesis by simp
    next
      case False
      with j have "i + 1 \<le> j \<and> j < n" by simp
      with rest show ?thesis by blast
    qed
  qed
next
  assume "\<forall>j. i \<le> j \<and> j < n \<longrightarrow> P j"
  then show "\<forall>j. i + 1 \<le> j \<and> j < n \<longrightarrow> P j" by simp
qed

lemma blocksHaveEqualStructure_loop_eq:
  assumes "Block_wf lhs" and "Block_wf rhs"
    and "cols = length (data lhs)" and "cols = length (data rhs)"
  shows "blocksHaveEqualStructure_loop lhs rhs i cols =
           Inr (\<forall>j. i \<le> j \<and> j < cols \<longrightarrow>
                  getName (type (elements lhs ! j)) = getName (type (elements rhs ! j)))"
  using assms
proof (induction lhs rhs i cols rule: blocksHaveEqualStructure_loop.induct)
  case (1 lhs rhs i cols)
  show ?case
  proof (cases "i < cols")
    case False
    then show ?thesis
      by (subst blocksHaveEqualStructure_loop.simps) auto
  next
    case True
    have l: "getByPosition lhs i = Inr (elements lhs ! i)"
      using True "1.prems" by (simp add: getByPosition_eq)
    have r: "getByPosition rhs i = Inr (elements rhs ! i)"
      using True "1.prems" by (simp add: getByPosition_eq)
    show ?thesis
    proof (cases "getName (type (elements lhs ! i)) = getName (type (elements rhs ! i))")
      case False
      then show ?thesis
        using True l r by (subst blocksHaveEqualStructure_loop.simps) auto
    next
      case same: True
      have "blocksHaveEqualStructure_loop lhs rhs i cols =
            blocksHaveEqualStructure_loop lhs rhs (i + 1) cols"
        using True l r same by (subst blocksHaveEqualStructure_loop.simps) simp
      also have "\<dots> = Inr (\<forall>j. i + 1 \<le> j \<and> j < cols \<longrightarrow>
                  getName (type (elements lhs ! j)) = getName (type (elements rhs ! j)))"
        using "1.IH" [OF True l r _ "1.prems"] same by simp
      also have "(\<forall>j. i + 1 \<le> j \<and> j < cols \<longrightarrow>
                  getName (type (elements lhs ! j)) = getName (type (elements rhs ! j)))
               = (\<forall>j. i \<le> j \<and> j < cols \<longrightarrow>
                  getName (type (elements lhs ! j)) = getName (type (elements rhs ! j)))"
        using same by (rule all_from_next)
      finally show ?thesis .
    qed
  qed
qed

lemma blocksHaveCompatibleStructure_loop_eq:
  assumes "Block_wf lhs" and "Block_wf rhs"
    and "cols = length (data lhs)" and "cols = length (data rhs)"
  shows "blocksHaveCompatibleStructure_loop lhs rhs i cols =
           Inr (\<forall>j. i \<le> j \<and> j < cols \<longrightarrow>
                  typesAreCompatible (type (elements lhs ! j)) (type (elements rhs ! j)))"
  using assms
proof (induction lhs rhs i cols rule: blocksHaveCompatibleStructure_loop.induct)
  case (1 lhs rhs i cols)
  show ?case
  proof (cases "i < cols")
    case False
    then show ?thesis
      by (subst blocksHaveCompatibleStructure_loop.simps) auto
  next
    case True
    have l: "getByPosition lhs i = Inr (elements lhs ! i)"
      using True "1.prems" by (simp add: getByPosition_eq)
    have r: "getByPosition rhs i = Inr (elements rhs ! i)"
      using True "1.prems" by (simp add: getByPosition_eq)
    show ?thesis
    proof (cases "typesAreCompatible (type (elements lhs ! i)) (type (elements rhs ! i))")
      case False
      then show ?thesis
        using True l r by (subst blocksHaveCompatibleStructure_loop.simps) auto
    next
      case same: True
      have "blocksHaveCompatibleStructure_loop lhs rhs i cols =
            blocksHaveCompatibleStructure_loop lhs rhs (i + 1) cols"
        using True l r same by (subst blocksHaveCompatibleStructure_loop.simps) simp
      also have "\<dots> = Inr (\<forall>j. i + 1 \<le> j \<and> j < cols \<longrightarrow>
                  typesAreCompatible (type (elements lhs ! j)) (type (elements rhs ! j)))"
        using "1.IH" [OF True l r _ "1.prems"] same by simp
      also have "(\<forall>j. i + 1 \<le> j \<and> j < cols \<longrightarrow>
                  typesAreCompatible (type (elements lhs ! j)) (type (elements rhs ! j)))
               = (\<forall>j. i \<le> j \<and> j < cols \<longrightarrow>
                  typesAreCompatible (type (elements lhs ! j)) (type (elements rhs ! j)))"
        using same by (rule all_from_next)
      finally show ?thesis .
    qed
  qed
qed

text \<open>
  C7. For well-formed blocks the exact comparator answers whether the column counts agree
  and the type names agree at every position; the compatible comparator answers whether
  the column counts agree and at every position both types behave as number, or both
  behave as string, or the type names agree. Neither throws.
\<close>

theorem blocks_structure_comparators:
  assumes "Block_wf lhs" and "Block_wf rhs"
  shows "blocksHaveEqualStructure lhs rhs =
           Inr (columns lhs = columns rhs \<and>
                (\<forall>i < columns lhs.
                   getName (type (elements lhs ! i)) = getName (type (elements rhs ! i)))) \<and>
         blocksHaveCompatibleStructure lhs rhs =
           Inr (columns lhs = columns rhs \<and>
                (\<forall>i < columns lhs.
                   behavesAsNumber (type (elements lhs ! i)) \<and> behavesAsNumber (type (elements rhs ! i)) \<or>
                   behavesAsString (type (elements lhs ! i)) \<and> behavesAsString (type (elements rhs ! i)) \<or>
                   getName (type (elements lhs ! i)) = getName (type (elements rhs ! i))))"
proof (cases "columns rhs = columns lhs")
  case False
  then show ?thesis
    by (auto simp: blocksHaveEqualStructure_def blocksHaveCompatibleStructure_def)
next
  case True
  then have len: "columns lhs = length (data lhs)" "columns lhs = length (data rhs)"
    using assms by (simp_all add: columns_eq)
  have compat: "typesAreCompatible l r =
      (behavesAsNumber l \<and> behavesAsNumber r \<or> behavesAsString l \<and> behavesAsString r \<or>
       getName l = getName r)" for l r
    by (auto simp: typesAreCompatible_def)
  show ?thesis
    using True
      blocksHaveEqualStructure_loop_eq [OF assms len, of 0]
      blocksHaveCompatibleStructure_loop_eq [OF assms len, of 0]
    by (simp add: blocksHaveEqualStructure_def blocksHaveCompatibleStructure_def compat)
qed

section \<open>Sequences of mutations\<close>

lemma perform_wf:
  assumes "Block_wf b" and "perform b operation = Inr b'"
  shows "Block_wf b'"
proof (cases operation)
  case (Insert elem)
  with assms show ?thesis
    by (auto simp: Block_insert_eq Block_wf_inserted)
next
  case (InsertAt position elem)
  show ?thesis
  proof (cases "position \<le> length (data b)")
    case True
    with assms InsertAt show ?thesis
      by (auto simp: Block_insert_at_eq Block_wf_inserted)
  next
    case False
    with assms InsertAt show ?thesis
      by (simp add: Block_insert_at_out_of_bound)
  qed
next
  case (Erase position)
  show ?thesis
  proof (cases "position < length (data b)")
    case True
    with assms Erase show ?thesis
      by (auto simp: Block_erase_eq Block_wf_removed split: if_splits)
  next
    case False
    with assms Erase show ?thesis
      by (simp add: Block_erase_out_of_bound)
  qed
next
  case (EraseName n)
  show ?thesis
  proof (cases "index_by_name b n")
    case None
    with assms EraseName show ?thesis
      by (simp add: Block_erase_name_def)
  next
    case (Some it)
    from Block_erase_name_eq [OF assms(1) Some] obtain p
      where "p < length (data b)" "Block_erase_name b n = Inr (removed b p)"
      by blast
    with assms EraseName show ?thesis
      by (auto simp: Block_wf_removed)
  qed
qed

lemma perform_all_wf:
  "Block_wf b \<Longrightarrow> perform_all b operations = Inr b' \<Longrightarrow> Block_wf b'"
proof (induction operations arbitrary: b)
  case Nil
  then show ?case by simp
next
  case (Cons operation operations)
  then show ?case
    by (auto split: sum.splits dest: perform_wf)
qed

lemma all_indexed_inserted:
  assumes "all_indexed b" and "\<not> has b (name elem)" and "p \<le> length (data b)"
  shows "all_indexed (inserted b p elem)"
proof -
  have set_eq: "set (take p (data b) @ (next_node b, elem) # drop p (data b))
                = insert (next_node b, elem) (set (data b))"
    by (metis append_take_drop_id list.simps(15) set_append Un_insert_right)
  have "name (snd x) \<noteq> name elem" if "x \<in> set (data b)" for x
    using that assms(1,2) by (auto simp: all_indexed_def has_def)
  then have "\<forall>x \<in> set (take p (data b) @ (next_node b, elem) # drop p (data b)).
          ((index_by_name b)(name elem \<mapsto> Iterator (next_node b))) (name (snd x))
          = Some (Iterator (fst x))"
    unfolding set_eq using assms(1) by (auto simp: all_indexed_def)
  then show ?thesis
    unfolding all_indexed_def inserted_def by simp
qed

lemma all_indexed_removed:
  assumes "Block_wf b" and "all_indexed b" and "p < length (data b)"
  shows "all_indexed (removed b p)"
proof -
  let ?d = "data b"
  from assms(1) have dist: "distinct (map fst ?d)" by (simp add: Block_wf_def)
  have split: "?d = take p ?d @ (?d ! p) # drop (Suc p) ?d"
    using assms(3) by (simp add: id_take_nth_drop)
  have notin: "fst (?d ! p) \<notin> fst ` set (take p ?d @ drop (Suc p) ?d)"
    using dist by (subst (asm) split) auto
  have subset: "set (take p ?d @ drop (Suc p) ?d) \<subseteq> set ?d"
    by (auto dest: in_set_takeD in_set_dropD)
  have here: "index_by_name b (name (snd (?d ! p))) = Some (Iterator (fst (?d ! p)))"
    using assms(2,3) by (simp add: all_indexed_def)
  have "index_by_name b (name (snd x)) = Some (Iterator (fst x)) \<and>
        name (snd x) \<noteq> name (snd (?d ! p))"
    if "x \<in> set (take p ?d @ drop (Suc p) ?d)" for x
  proof -
    from that subset have "x \<in> set ?d" by blast
    then have ix: "index_by_name b (name (snd x)) = Some (Iterator (fst x))"
      using assms(2) by (simp add: all_indexed_def)
    have "fst x \<noteq> fst (?d ! p)"
      using that notin by (metis imageI)
    with ix here show ?thesis by auto
  qed
  then show ?thesis
    unfolding all_indexed_def removed_def by simp
qed

lemma perform_all_indexed:
  assumes "Block_wf b" and "all_indexed b" and "perform b operation = Inr b'"
    and "inserts_new_names b [operation]"
  shows "all_indexed b'"
proof (cases operation)
  case (Insert elem)
  with assms show ?thesis
    by (auto simp: Block_insert_eq all_indexed_inserted)
next
  case (InsertAt position elem)
  show ?thesis
  proof (cases "position \<le> length (data b)")
    case True
    with assms InsertAt show ?thesis
      by (auto simp: Block_insert_at_eq all_indexed_inserted)
  next
    case False
    with assms InsertAt show ?thesis
      by (simp add: Block_insert_at_out_of_bound)
  qed
next
  case (Erase position)
  show ?thesis
  proof (cases "position < length (data b)")
    case True
    with assms Erase show ?thesis
      by (auto simp: Block_erase_eq all_indexed_removed split: if_splits)
  next
    case False
    with assms Erase show ?thesis
      by (simp add: Block_erase_out_of_bound)
  qed
next
  case (EraseName n)
  show ?thesis
  proof (cases "index_by_name b n")
    case None
    with assms EraseName show ?thesis
      by (simp add: Block_erase_name_def)
  next
    case (Some it)
    from Block_erase_name_eq [OF assms(1) Some] obtain p
      where "p < length (data b)" "Block_erase_name b n = Inr (removed b p)"
      by blast
    with assms EraseName show ?thesis
      by (auto simp: all_indexed_removed)
  qed
qed

lemma perform_all_all_indexed:
  "Block_wf b \<Longrightarrow> all_indexed b \<Longrightarrow> inserts_new_names b operations \<Longrightarrow>
   perform_all b operations = Inr b' \<Longrightarrow> all_indexed b'"
proof (induction operations arbitrary: b)
  case Nil
  then show ?case by simp
next
  case (Cons operation operations)
  from Cons.prems(4) obtain b1 where b1: "perform b operation = Inr b1"
    and rest: "perform_all b1 operations = Inr b'"
    by (auto split: sum.splits)
  have wf1: "Block_wf b1"
    using Cons.prems(1) b1 by (rule perform_wf)
  have new1: "inserts_new_names b [operation]" and new: "inserts_new_names b1 operations"
    using Cons.prems(3) b1 by simp_all
  have ix1: "all_indexed b1"
    using Cons.prems(1,2) b1 new1 by (rule perform_all_indexed)
  show ?case
    using wf1 ix1 new rest by (rule Cons.IH)
qed

lemma lookup_by_name_consistent:
  assumes "Block_wf b" and "has b n"
  shows "\<exists>p elem. getPositionByName b n = Inr p \<and> getByPosition b p = Inr elem \<and> name elem = n"
proof -
  from assms(2) obtain it where it: "index_by_name b n = Some it"
    by (auto simp: has_def)
  from assms(1) it obtain x where x: "x \<in> set (data b)" "it = Iterator (fst x)" "name (snd x) = n"
    unfolding Block_wf_def by blast
  then obtain p where p: "p < length (data b)" "data b ! p = x"
    by (auto simp: in_set_conv_nth)
  have "distance (data b) (Iterator (fst (data b ! p))) = Some p"
    using assms(1) p(1) by (intro distance_nth) (simp_all add: Block_wf_def)
  then have "getPositionByName b n = Inr p"
    using it x p by (simp add: getPositionByName_def)
  moreover have "getByPosition b p = Inr (snd x)"
    using assms(1) p by (simp add: getByPosition_eq elements_def)
  ultimately show ?thesis
    using x(3) by blast
qed

text \<open>
  C6, as the code has it. After any sequence of appends, inserts at a position and erases
  (by position or by name) that runs to its end from the empty block, the position index
  has one entry per element, and every name that has an entry in the name index is
  mapped to the position of an element with that name. When every insert of the sequence
  brought a name the index had no entry for, every element's name has an entry.
\<close>

theorem index_consistency:
  assumes "perform_all Block_empty operations = Inr b"
  shows "length (index_by_position b) = length (elements b) \<and>
         (\<forall>n. has b n \<longrightarrow>
            (\<exists>p elem. getPositionByName b n = Inr p \<and> getByPosition b p = Inr elem \<and>
               name elem = n)) \<and>
         (inserts_new_names Block_empty operations \<longrightarrow>
            (\<forall>elem \<in> set (elements b). has b (name elem)))"
proof -
  have wf: "Block_wf b"
    using Block_wf_empty assms by (rule perform_all_wf)
  have "all_indexed Block_empty"
    by (simp add: all_indexed_def Block_empty_def)
  then have "all_indexed b" if "inserts_new_names Block_empty operations"
    using Block_wf_empty that assms perform_all_all_indexed by blast
  then have "\<forall>elem \<in> set (elements b). has b (name elem)"
    if "inserts_new_names Block_empty operations"
    using that by (auto simp: all_indexed_def has_def elements_def)
  then show ?thesis
    using wf lookup_by_name_consistent [OF wf]
    by (simp add: Block_wf_length elements_def)
qed

section \<open>Row counts\<close>

lemma column_size_not_null:
  "c \<noteq> Null \<Longrightarrow> column_size m c = Inr (size_or_zero m c)"
  by (cases c) (simp_all add: size_or_zero_def)

lemma rows_loop_Inr:
  assumes "\<forall>x \<in> set xs. column (snd x) \<noteq> Null"
    and "rows_loop m first xs res = Inr r"
  shows "r = last (res # map (\<lambda>x. size_or_zero m (column (snd x))) xs) \<and>
         no_mismatch res (map (\<lambda>x. size_or_zero m (column (snd x))) xs)"
  using assms
proof (induction xs arbitrary: res)
  case Nil
  then show ?case by simp
next
  case (Cons x xs)
  from Cons.prems(1) have cs: "column_size m (column (snd x)) = Inr (size_or_zero m (column (snd x)))"
    by (simp add: column_size_not_null)
  from Cons.prems(2) have ok: "\<not> (res \<noteq> 0 \<and> size_or_zero m (column (snd x)) \<noteq> res)"
    and rest: "rows_loop m first xs (size_or_zero m (column (snd x))) = Inr r"
    by (auto simp: cs split: if_splits)
  from Cons.IH [OF _ rest] Cons.prems(1) ok show ?case
    by simp
qed

lemma rows_loop_Inl:
  assumes "\<forall>x \<in> set xs. column (snd x) \<noteq> Null"
    and "rows_loop m first xs res = Inl e"
  shows "\<exists>i < length xs.
           (res # map (\<lambda>x. size_or_zero m (column (snd x))) xs) ! i \<noteq> 0 \<and>
           map (\<lambda>x. size_or_zero m (column (snd x))) xs ! i
             \<noteq> (res # map (\<lambda>x. size_or_zero m (column (snd x))) xs) ! i \<and>
           no_mismatch res (take i (map (\<lambda>x. size_or_zero m (column (snd x))) xs)) \<and>
           e = Exception
                 (sizes_message first
                    ((res # map (\<lambda>x. size_or_zero m (column (snd x))) xs) ! i)
                    (name (snd (xs ! i)))
                    (map (\<lambda>x. size_or_zero m (column (snd x))) xs ! i))
                 SIZES_OF_COLUMNS_DOESNT_MATCH"
  using assms
proof (induction xs arbitrary: res)
  case Nil
  then show ?case by simp
next
  case (Cons x xs)
  let ?s = "size_or_zero m (column (snd x))"
  from Cons.prems(1) have cs: "column_size m (column (snd x)) = Inr ?s"
    by (simp add: column_size_not_null)
  show ?case
  proof (cases "res \<noteq> 0 \<and> ?s \<noteq> res")
    case True
    with Cons.prems(2) have "e = Exception (sizes_message first res (name (snd x)) ?s)
                                   SIZES_OF_COLUMNS_DOESNT_MATCH"
      by (auto simp: cs sizes_message_def)
    with True show ?thesis
      by (intro exI [of _ 0]) simp
  next
    case False
    with Cons.prems(2) have rest: "rows_loop m first xs ?s = Inl e"
      by (auto simp: cs split: if_splits)
    from Cons.IH [OF _ rest] Cons.prems(1) obtain i where i: "i < length xs"
      "(?s # map (\<lambda>x. size_or_zero m (column (snd x))) xs) ! i \<noteq> 0"
      "map (\<lambda>x. size_or_zero m (column (snd x))) xs ! i
         \<noteq> (?s # map (\<lambda>x. size_or_zero m (column (snd x))) xs) ! i"
      "no_mismatch ?s (take i (map (\<lambda>x. size_or_zero m (column (snd x))) xs))"
      "e = Exception
             (sizes_message first
                ((?s # map (\<lambda>x. size_or_zero m (column (snd x))) xs) ! i)
                (name (snd (xs ! i)))
                (map (\<lambda>x. size_or_zero m (column (snd x))) xs ! i))
             SIZES_OF_COLUMNS_DOESNT_MATCH"
      by auto
    with False show ?thesis
      by (intro exI [of _ "Suc i"]) simp
  qed
qed

lemma no_mismatch_nth:
  "no_mismatch res ss \<Longrightarrow> i < length ss \<Longrightarrow> (res # ss) ! i = 0 \<or> ss ! i = (res # ss) ! i"
proof (induction ss arbitrary: res i)
  case Nil
  then show ?case by simp
next
  case (Cons s ss)
  then show ?case
    by (cases i) auto
qed

lemma no_mismatch_constant:
  "no_mismatch res ss \<Longrightarrow> res \<noteq> 0 \<Longrightarrow> ss = replicate (length ss) res"
  by (induction ss arbitrary: res) auto

lemma no_mismatch_shape:
  "no_mismatch 0 ss \<Longrightarrow>
   \<exists>k \<le> length ss. ss = replicate k 0 @ replicate (length ss - k) (last (0 # ss))"
proof (induction ss)
  case Nil
  then show ?case by simp
next
  case (Cons s ss)
  show ?case
  proof (cases "s = 0")
    case True
    with Cons obtain k where k: "k \<le> length ss"
      and shape: "ss = replicate k 0 @ replicate (length ss - k) (last (0 # ss))"
      by auto
    have last_eq: "last (0 # s # ss) = last (0 # ss)"
      using True by simp
    have "s # ss = 0 # (replicate k 0 @ replicate (length ss - k) (last (0 # ss)))"
      using True shape by simp
    then have "s # ss = replicate (Suc k) 0 @ replicate (length (s # ss) - Suc k) (last (0 # s # ss))"
      unfolding last_eq by simp
    moreover have "Suc k \<le> length (s # ss)"
      using k by simp
    ultimately show ?thesis
      by blast
  next
    case False
    with Cons.prems have "ss = replicate (length ss) s"
      by (simp add: no_mismatch_constant)
    then obtain n where n: "ss = replicate n s" ..
    have "last (0 # s # ss) = s"
      unfolding n by simp
    moreover have "s # ss = replicate (length (s # ss)) s"
      unfolding n by simp
    ultimately have "s # ss = replicate 0 0 @ replicate (length (s # ss) - 0) (last (0 # s # ss))"
      by simp
    moreover have "0 \<le> length (s # ss)"
      by simp
    ultimately show ?thesis
      by blast
  qed
qed

lemma no_mismatch_first:
  "no_mismatch 0 (take (Suc i) ss) \<Longrightarrow> i < length ss \<Longrightarrow> ss ! 0 \<noteq> 0 \<Longrightarrow> ss ! i = ss ! 0"
proof -
  assume a: "no_mismatch 0 (take (Suc i) ss)" "i < length ss" "ss ! 0 \<noteq> 0"
  then obtain s rest where ss: "ss = s # rest" by (cases ss) auto
  with a have "no_mismatch s (take i rest)" "s \<noteq> 0" by simp_all
  then have "take i rest = replicate (length (take i rest)) s"
    by (rule no_mismatch_constant)
  then have "\<forall>y \<in> set (take i rest). y = s"
    by (metis in_set_replicate)
  then have all: "\<forall>y \<in> set (take i rest). y = s" .
  show ?thesis
  proof (cases i)
    case 0
    then show ?thesis by simp
  next
    case (Suc k)
    with a(2) ss have k: "k < length rest" by simp
    have "take (Suc k) rest ! k = rest ! k"
      by simp
    moreover have "k < length (take (Suc k) rest)"
      using k by simp
    ultimately have "rest ! k \<in> set (take (Suc k) rest)"
      by (metis nth_mem)
    with all Suc have "rest ! k = s" by simp
    with ss Suc show ?thesis by simp
  qed
qed

text \<open>
  C5, as the code has it. With every column handle set, \<open>rows\<close> throws exactly when some
  column of non-zero size is followed immediately by a column of another size (zero
  included); the exception is \<open>SIZES_OF_COLUMNS_DOESNT_MATCH\<close> and its message names the
  first column of the block and the later column of such a pair, with the two differing
  sizes (the first of them is the first column's own size whenever that is not zero).
  Otherwise it returns the size of the last column (0 for the empty block), and the sizes
  are some zeros followed by that size only.
\<close>

theorem rows_sizes:
  assumes "\<forall>elem \<in> set (elements b). column elem \<noteq> Null"
  shows "(\<exists>e. rows m b = Inl e) =
           (\<exists>i. Suc i < length (column_sizes m b) \<and> column_sizes m b ! i \<noteq> 0 \<and>
                column_sizes m b ! Suc i \<noteq> column_sizes m b ! i) \<and>
         (\<forall>e. rows m b = Inl e \<longrightarrow>
            (\<exists>i. Suc i < length (column_sizes m b) \<and> column_sizes m b ! i \<noteq> 0 \<and>
                 column_sizes m b ! Suc i \<noteq> column_sizes m b ! i \<and>
                 (column_sizes m b ! 0 \<noteq> 0 \<longrightarrow> column_sizes m b ! i = column_sizes m b ! 0) \<and>
                 e = Exception
                       (sizes_message (name (hd (elements b))) (column_sizes m b ! i)
                          (name (elements b ! Suc i)) (column_sizes m b ! Suc i))
                       SIZES_OF_COLUMNS_DOESNT_MATCH)) \<and>
         (\<forall>r. rows m b = Inr r \<longrightarrow>
            r = last (0 # column_sizes m b) \<and>
            (\<exists>k \<le> length (column_sizes m b).
               column_sizes m b = replicate k 0 @ replicate (length (column_sizes m b) - k) r))"
proof -
  let ?S = "map (\<lambda>x. size_or_zero m (column (snd x))) (data b)"
  let ?first = "case data b of [] \<Rightarrow> [] | x # xs \<Rightarrow> name (snd x)"
  have S: "column_sizes m b = ?S"
    by (simp add: column_sizes_def elements_def comp_def)
  have nn: "\<forall>x \<in> set (data b). column (snd x) \<noteq> Null"
    using assms by (simp add: elements_def)
  have fail: "\<exists>i. Suc i < length ?S \<and> ?S ! i \<noteq> 0 \<and> ?S ! Suc i \<noteq> ?S ! i \<and>
                (?S ! 0 \<noteq> 0 \<longrightarrow> ?S ! i = ?S ! 0) \<and>
                e = Exception (sizes_message (name (hd (elements b))) (?S ! i)
                      (name (elements b ! Suc i)) (?S ! Suc i)) SIZES_OF_COLUMNS_DOESNT_MATCH"
    if "rows m b = Inl e" for e
  proof -
    from that have "rows_loop m ?first (data b) 0 = Inl e"
      by (simp add: rows_def)
    from rows_loop_Inl [OF nn this] obtain j where j: "j < length (data b)"
      "(0 # ?S) ! j \<noteq> 0" "?S ! j \<noteq> (0 # ?S) ! j"
      "no_mismatch 0 (take j ?S)"
      "e = Exception (sizes_message ?first ((0 # ?S) ! j) (name (snd (data b ! j))) (?S ! j))
             SIZES_OF_COLUMNS_DOESNT_MATCH"
      by blast
    from j(2) obtain i where i: "j = Suc i"
      by (cases j) auto
    have first: "?first = name (hd (elements b))"
      using j(1) by (cases "data b") (simp_all add: elements_def)
    have "?S ! i = ?S ! 0" if "?S ! 0 \<noteq> 0"
      using no_mismatch_first [of i ?S] j(1,4) i that by simp
    then show ?thesis
      using j i first by (intro exI [of _ i]) (simp add: elements_def)
  qed
  have ok: "r = last (0 # ?S) \<and> no_mismatch 0 ?S" if "rows m b = Inr r" for r
    using that rows_loop_Inr [OF nn, of m ?first 0 r] by (simp add: rows_def)
  have shape: "\<exists>k \<le> length ?S. ?S = replicate k 0 @ replicate (length ?S - k) r"
    if "rows m b = Inr r" for r
    using ok [OF that] no_mismatch_shape [of ?S] by auto
  have no_pair: "\<not> (\<exists>i. Suc i < length ?S \<and> ?S ! i \<noteq> 0 \<and> ?S ! Suc i \<noteq> ?S ! i)"
    if "rows m b = Inr r" for r
  proof
    assume "\<exists>i. Suc i < length ?S \<and> ?S ! i \<noteq> 0 \<and> ?S ! Suc i \<noteq> ?S ! i"
    then obtain i where i: "Suc i < length ?S" "?S ! i \<noteq> 0" "?S ! Suc i \<noteq> ?S ! i"
      by blast
    from ok [OF that] have "no_mismatch 0 ?S" by simp
    from no_mismatch_nth [OF this i(1)] i show False by simp
  qed
  have iff: "(\<exists>e. rows m b = Inl e) =
             (\<exists>i. Suc i < length ?S \<and> ?S ! i \<noteq> 0 \<and> ?S ! Suc i \<noteq> ?S ! i)"
  proof (cases "rows m b")
    case (Inl e)
    with fail [OF Inl] show ?thesis by auto
  next
    case (Inr r)
    with no_pair [OF Inr] show ?thesis by auto
  qed
  show ?thesis
    unfolding S using iff fail ok shape by blast
qed

section \<open>Nested arrays\<close>







lemma array_objects_member:
  "x \<in> set xs \<Longrightarrow> column (snd x) = ColumnArray a \<Longrightarrow> a \<in> set (array_objects xs)"
  by (induction xs) (auto split: ColumnPtr.splits)

lemma first_array_exists:
  "x \<in> set xs \<Longrightarrow> column (snd x) = ColumnArray a \<Longrightarrow> ext (name (snd x)) = Inr table \<Longrightarrow>
   \<exists>f. first_array ext xs table = Some f"
  by (induction xs) (auto split: ColumnPtr.splits)




section \<open>Concrete runs\<close>

lemma foldl_Block_insert_wf:
  "Block_wf b \<Longrightarrow> Block_wf (foldl Block_insert b elems)"
  by (induction elems arbitrary: b) (simp_all add: Block_insert_eq Block_wf_inserted)

lemma block_of_wf: "Block_wf (block_of elems)"
  by (simp add: block_of_def foldl_Block_insert_wf Block_wf_empty)

lemma shift_right_step:
  "position < i \<Longrightarrow>
   shift_right ibp i position = shift_right (ibp[i := ibp ! (i - 1)]) (i - 1) position"
  by (subst shift_right.simps) simp

lemma shift_right_stop: "\<not> position < i \<Longrightarrow> shift_right ibp i position = ibp"
  by (subst shift_right.simps) simp

lemma shift_left_step:
  "i < sz \<Longrightarrow> shift_left ibp i sz = shift_left (ibp[i := ibp ! (i + 1)]) (i + 1) sz"
  by (subst shift_left.simps) simp

lemma shift_left_stop: "\<not> i < sz \<Longrightarrow> shift_left ibp i sz = ibp"
  by (subst shift_left.simps) simp

lemma toString_digit: "n < 10 \<Longrightarrow> toString n = [''0123456789'' ! n]"
  by (subst toString.simps) simp

lemma toString_more:
  "\<not> n < 10 \<Longrightarrow> toString n = toString (n div 10) @ [''0123456789'' ! (n mod 10)]"
  by (subst toString.simps) simp

lemmas loop_steps = shift_right_step shift_right_stop shift_left_step shift_left_stop
  toString_digit toString_more

lemmas eval_defs = block_abc_def block_of_def Block_insert_def Block_empty_def plain_column_def
  Block_insert_at_def getByPosition_def getPositionByName_def columns_def elements_def
  DataTypeInt32_def Let_def

lemma block_abc_wf: "Block_wf block_abc"
  by (simp add: block_abc_def block_of_wf)

text \<open>
  C4 on the specification's example: \<open>mid\<close> inserted at position 1 into the columns
  \<open>a, b, c\<close> gives \<open>a, mid, b, c\<close>, and each of the four names is mapped to its position.
\<close>

theorem Block_insert_at_position_witness:
  "\<exists>b'. Block_insert_at block_abc 1 (plain_column ''mid'' DataTypeInt32 5) = Inr b' \<and>
     columns b' = 4 \<and>
     getByPosition b' 0 = Inr (plain_column ''a'' DataTypeInt32 5) \<and>
     getByPosition b' 1 = Inr (plain_column ''mid'' DataTypeInt32 5) \<and>
     getByPosition b' 2 = Inr (plain_column ''b'' DataTypeInt32 5) \<and>
     getByPosition b' 3 = Inr (plain_column ''c'' DataTypeInt32 5) \<and>
     getPositionByName b' ''a'' = Inr 0 \<and> getPositionByName b' ''mid'' = Inr 1 \<and>
     getPositionByName b' ''b'' = Inr 2 \<and> getPositionByName b' ''c'' = Inr 3"
proof -
  let ?mid = "plain_column ''mid'' DataTypeInt32 5"
  have cols: "columns block_abc = 3"
    by (simp add: eval_defs)
  have old: "getByPosition block_abc 0 = Inr (plain_column ''a'' DataTypeInt32 5)"
    "getByPosition block_abc 1 = Inr (plain_column ''b'' DataTypeInt32 5)"
    "getByPosition block_abc 2 = Inr (plain_column ''c'' DataTypeInt32 5)"
    "getPositionByName block_abc ''a'' = Inr 0"
    "getPositionByName block_abc ''b'' = Inr 1"
    "getPositionByName block_abc ''c'' = Inr 2"
    by (simp_all add: eval_defs)
  have mid: "name ?mid = ''mid''"
    by (simp add: plain_column_def)
  from Block_insert_at_position [OF block_abc_wf, of 1 ?mid] cols
  obtain b' where b': "Block_insert_at block_abc 1 ?mid = Inr b'"
    "columns b' = Suc 3" "getByPosition b' 1 = Inr ?mid"
    "\<forall>i < 1. getByPosition b' i = getByPosition block_abc i"
    "\<forall>i. 1 \<le> i \<and> i < 3 \<longrightarrow> getByPosition b' (Suc i) = getByPosition block_abc i"
    "getPositionByName b' (name ?mid) = Inr 1"
    "\<forall>n i. n \<noteq> name ?mid \<and> getPositionByName block_abc n = Inr i \<longrightarrow>
       getPositionByName b' n = Inr (if i < 1 then i else Suc i)"
    by auto
  have "getByPosition b' 0 = getByPosition block_abc 0"
    using b'(4) by simp
  moreover have "getByPosition b' 2 = getByPosition block_abc 1"
    using b'(5) [rule_format, of 1] by (simp add: numeral_2_eq_2)
  moreover have "getByPosition b' 3 = getByPosition block_abc 2"
    using b'(5) [rule_format, of 2] by (simp add: numeral_3_eq_3)
  moreover have "getPositionByName b' ''a'' = Inr 0"
    using b'(7) [rule_format, of "''a''" 0] old(4) mid by simp
  moreover have "getPositionByName b' ''b'' = Inr 2"
    using b'(7) [rule_format, of "''b''" 1] old(5) mid by simp
  moreover have "getPositionByName b' ''c'' = Inr 3"
    using b'(7) [rule_format, of "''c''" 2] old(6) mid by simp
  ultimately show ?thesis
    using b'(1,2,3,6) old(1-3) mid
    by (intro exI [of _ b']) simp
qed

lemma map_upd_eq_iff: "(m(k \<mapsto> x) = m(k \<mapsto> y)) = (x = y)"
  by (metis map_upd_eqD1)

lemmas example_defs = map_upd_eq_iff eval_defs block_557_def block_50_def rows_def column_sizes_def
  size_or_zero_def sizes_message_def getByName_def Block_erase_name_def Block_erase_def
  dumpNames_def insertUnique_def has_def block_shadowed_def

text \<open>
  C5 on the specification's examples: sizes 5, 5, 5 give 5; sizes 5, 5, 7 throw, and the
  message names \<open>a\<close> with 5 and \<open>c\<close> with 7.
\<close>

theorem rows_sizes_witness:
  "rows no_arrays block_abc = Inr 5 \<and>
   column_sizes no_arrays block_557 = [5, 5, 7] \<and>
   rows no_arrays block_557 =
     Inl (Exception (''Sizes of columns doesn'' @ [CHR 0x27] @ ''t match: a: 5, c: 7'')
            SIZES_OF_COLUMNS_DOESNT_MATCH)"
proof -
  have nn: "\<forall>elem \<in> set (elements block_abc). column elem \<noteq> Null"
    by (simp add: example_defs)
  have sizes: "column_sizes no_arrays block_abc = [5, 5, 5]"
    by (simp add: example_defs)
  have no_pair: "\<not> (\<exists>i. Suc i < length [5, 5, 5 :: nat] \<and> [5, 5, 5 :: nat] ! i \<noteq> 0 \<and>
                    [5, 5, 5 :: nat] ! Suc i \<noteq> [5, 5, 5] ! i)"
    by (auto simp: less_Suc_eq nth_Cons split: nat.splits)
  from rows_sizes [OF nn, of no_arrays] sizes no_pair
  have ok: "\<not> (\<exists>e. rows no_arrays block_abc = Inl e)"
    and val: "\<forall>r. rows no_arrays block_abc = Inr r \<longrightarrow> r = last (0 # [5, 5, 5])"
    by simp_all
  from ok obtain r where "rows no_arrays block_abc = Inr r"
    by (cases "rows no_arrays block_abc") auto
  with val have "rows no_arrays block_abc = Inr 5"
    by simp
  moreover have "column_sizes no_arrays block_557 = [5, 5, 7]"
    by (simp add: example_defs)
  moreover have "rows no_arrays block_557 =
     Inl (Exception (''Sizes of columns doesn'' @ [CHR 0x27] @ ''t match: a: 5, c: 7'')
            SIZES_OF_COLUMNS_DOESNT_MATCH)"
    by (simp add: example_defs loop_steps)
  ultimately show ?thesis by simp
qed

text \<open>
  C5 as stated fails on sizes 5, 0: only one size is non-zero, and \<^verbatim>\<open>rows\<close> throws.
\<close>

theorem rows_zero_after_nonzero_counterexample:
  "column_sizes no_arrays block_50 = [5, 0] \<and>
   rows no_arrays block_50 =
     Inl (Exception (''Sizes of columns doesn'' @ [CHR 0x27] @ ''t match: a: 5, b: 0'')
            SIZES_OF_COLUMNS_DOESNT_MATCH)"
  by (simp add: example_defs loop_steps)

lemma perform_example_operations: "perform_all Block_empty example_operations = Inr block_mid"
  by (simp add: example_operations_def block_mid_def example_defs loop_steps)

lemma perform_shadowing_operations:
  "perform_all Block_empty shadowing_operations = Inr block_shadowed"
  by (simp add: shadowing_operations_def example_defs loop_steps)

text \<open>
  C6 on a run of all four kinds of mutation that never inserts a name twice.
\<close>

theorem index_consistency_witness:
  "perform_all Block_empty example_operations = Inr block_mid \<and>
   inserts_new_names Block_empty example_operations \<and>
   length (index_by_position block_mid) = length (elements block_mid) \<and>
   has block_mid ''mid'' \<and>
   (\<exists>p elem. getPositionByName block_mid ''mid'' = Inr p \<and> getByPosition block_mid p = Inr elem \<and>
      name elem = ''mid'')"
proof -
  have new: "inserts_new_names Block_empty example_operations"
    by (simp add: example_operations_def example_defs loop_steps)
  have "elements block_mid = [plain_column ''mid'' DataTypeInt32 5]"
    by (simp add: block_mid_def elements_def)
  with index_consistency [OF perform_example_operations] new
  have "has block_mid ''mid''"
    by (simp add: plain_column_def)
  with index_consistency [OF perform_example_operations] new perform_example_operations
  show ?thesis by simp
qed

text \<open>
  C6 as stated fails after appending two columns named \<open>a\<close> and erasing position 0: the
  block still has a column named \<open>a\<close>, and \<open>getPositionByName\<close> throws for that name.
\<close>

theorem index_consistency_counterexample:
  "perform_all Block_empty shadowing_operations = Inr block_shadowed \<and>
   elements block_shadowed = [plain_column ''a'' DataTypeInt32 7] \<and>
   getPositionByName block_shadowed ''a'' =
     Inl (Exception ''Not found column a in block. There are only columns: a''
            NOT_FOUND_COLUMN_IN_BLOCK)"
  using perform_shadowing_operations by (simp add: example_defs)

text \<open>
  C7 on the specification's example: \<open>(x: Int32)\<close> against \<open>(x: Int64)\<close> is compatible and
  not equal; against \<open>(x: String)\<close> it is neither.
\<close>

theorem blocks_structure_comparators_witness:
  "blocksHaveEqualStructure (block_x DataTypeInt32) (block_x DataTypeInt64) = Inr False \<and>
   blocksHaveCompatibleStructure (block_x DataTypeInt32) (block_x DataTypeInt64) = Inr True \<and>
   blocksHaveEqualStructure (block_x DataTypeInt32) (block_x DataTypeString) = Inr False \<and>
   blocksHaveCompatibleStructure (block_x DataTypeInt32) (block_x DataTypeString) = Inr False"
proof -
  have wf: "Block_wf (block_x t)" for t
    by (simp add: block_x_def block_of_wf)
  have obs: "columns (block_x t) = 1" "elements (block_x t) = [plain_column ''x'' t 3]" for t
    by (simp_all add: block_x_def eval_defs)
  show ?thesis
    using blocks_structure_comparators [OF wf wf, of DataTypeInt32 DataTypeInt64]
      blocks_structure_comparators [OF wf wf, of DataTypeInt32 DataTypeString]
    by (simp add: obs plain_column_def DataTypeInt32_def DataTypeInt64_def DataTypeString_def)
qed

text \<open>C8 on the columns \<open>a, b, c\<close> and the absent name \<open>zzz\<close>.\<close>

theorem name_lookup_miss_witness:
  "getByName block_abc ''zzz'' =
     Inl (Exception ''Not found column zzz in block. There are only columns: a, b, c''
            NOT_FOUND_COLUMN_IN_BLOCK) \<and>
   getPositionByName block_abc ''zzz'' =
     Inl (Exception ''Not found column zzz in block. There are only columns: a, b, c''
            NOT_FOUND_COLUMN_IN_BLOCK) \<and>
   Block_erase_name block_abc ''zzz'' =
     Inl (Exception (''No such name in Block::erase(): '' @ [CHR 0x27] @ ''zzz'' @ [CHR 0x27])
            NOT_FOUND_COLUMN_IN_BLOCK)"
proof -
  have els: "map name (elements block_abc) = [''a'', ''b'', ''c'']"
    by (simp add: eval_defs)
  have "name ` set (elements block_abc) = set (map name (elements block_abc))"
    by simp
  then have "''zzz'' \<notin> name ` set (elements block_abc)"
    unfolding els by simp
  from name_lookup_miss [OF block_abc_wf this] show ?thesis
    by (simp add: els)
qed

text \<open>
  C8 as stated fails for \<open>erase(name)\<close>: on the columns \<open>a, b, c\<close> the dump of names is not
  part of its message.
\<close>

theorem erase_message_counterexample:
  "Block_erase_name block_abc ''zzz'' =
     Inl (Exception (''No such name in Block::erase(): '' @ [CHR 0x27] @ ''zzz'' @ [CHR 0x27])
            NOT_FOUND_COLUMN_IN_BLOCK) \<and>
   dumpNames block_abc = ''a, b, c'' \<and>
   \<not> sublist (dumpNames block_abc)
       (''No such name in Block::erase(): '' @ [CHR 0x27] @ ''zzz'' @ [CHR 0x27])"
  by (simp add: example_defs sublist_code prefix_code)

text \<open>C9 on the columns \<open>a, b, c\<close>: \<open>b\<close> is present, \<open>d\<close> is appended.\<close>

theorem insertUnique_by_name_index_witness:
  "has block_abc ''b'' \<and>
   insertUnique block_abc (plain_column ''b'' DataTypeString 9) = block_abc \<and>
   \<not> has block_abc ''d'' \<and>
   elements (insertUnique block_abc (plain_column ''d'' DataTypeString 5))
     = elements block_abc @ [plain_column ''d'' DataTypeString 5] \<and>
   getPositionByName (insertUnique block_abc (plain_column ''d'' DataTypeString 5)) ''d'' = Inr 3"
proof -
  have has: "has block_abc ''b''" "\<not> has block_abc ''d''"
    by (simp_all add: example_defs)
  have names: "name (plain_column ''b'' DataTypeString 9) = ''b''"
    "name (plain_column ''d'' DataTypeString 5) = ''d''"
    by (simp_all add: plain_column_def)
  have cols: "columns block_abc = 3"
    by (simp add: eval_defs)
  note present = insertUnique_by_name_index
    [OF block_abc_wf, of "plain_column ''b'' DataTypeString 9", unfolded names]
  note absent = insertUnique_by_name_index
    [OF block_abc_wf, of "plain_column ''d'' DataTypeString 5", unfolded names cols]
  from present has(1)
  have "insertUnique block_abc (plain_column ''b'' DataTypeString 9) = block_abc"
    by blast
  moreover from absent has(2)
  have "elements (insertUnique block_abc (plain_column ''d'' DataTypeString 5))
          = elements block_abc @ [plain_column ''d'' DataTypeString 5]"
    and "getPositionByName (insertUnique block_abc (plain_column ''d'' DataTypeString 5)) ''d''
          = Inr 3"
    by blast+
  ultimately show ?thesis
    using has by blast
qed

text \<open>
  C9 as stated fails on the block left by appending two columns named \<open>a\<close> and erasing
  position 0: it has a column named \<open>a\<close>, and \<open>insertUnique\<close> appends another one.
\<close>

theorem insertUnique_shadowed_counterexample:
  "perform_all Block_empty shadowing_operations = Inr block_shadowed \<and>
   elements block_shadowed = [plain_column ''a'' DataTypeInt32 7] \<and>
   elements (insertUnique block_shadowed (plain_column ''a'' DataTypeInt32 9))
     = [plain_column ''a'' DataTypeInt32 7, plain_column ''a'' DataTypeInt32 9]"
  using perform_shadowing_operations by (simp add: example_defs)




end
